theory Spec2Isabelle
  imports Main
begin

section \<open>Address arithmetic\<close>

text \<open>
  Addresses, page numbers and counters are unsigned machine values; they are modelled by
  their unsigned value as \<open>nat\<close>. The compile-time constant \<open>LOG2_PAGE_SIZE\<close> lives in a
  header that is not part of the examined sources, so every function that needs it takes
  it as its first argument \<open>lps\<close> (\<open>PAGE_SIZE = 2 ^ lps\<close>).
\<close>

datatype error = AssertionFailure

text \<open>
  Modelled from the spec: \<open>champsim::lg2\<close> (util/bits.h is not among the sources) is the
  integer base-2 logarithm, counting how often the argument can be halved.
\<close>

fun lg2 :: "nat \<Rightarrow> nat" where
  "lg2 n = (if n < 2 then 0 else Suc (lg2 (n div 2)))"

declare lg2.simps [simp del]

text \<open>
  Modelled from the spec: \<open>champsim::is_power_of_2\<close> (util/bits.h) holds for the numbers
  that equal two raised to their own logarithm.
\<close>

definition is_power_of_2 :: "nat \<Rightarrow> bool" where
  "is_power_of_2 n = (n = 2 ^ lg2 n)"

text \<open>
  Modelled from the spec: \<open>champsim::ipow\<close> (util/bits.h) raises its first argument to its
  second, in 64-bit arithmetic.
\<close>

definition ipow :: "nat \<Rightarrow> nat \<Rightarrow> nat" where
  "ipow base e = base ^ e mod 2 ^ 64"

text \<open>
  Modelled from the spec: a page number is an address with the page-offset bits removed,
  the page offset is the low \<open>lps\<close> bits, and \<open>champsim::splice\<close> of a page number with a
  page offset concatenates the two.
\<close>

definition page_number :: "nat \<Rightarrow> nat \<Rightarrow> nat" where
  "page_number lps addr = addr div 2 ^ lps"

definition page_offset :: "nat \<Rightarrow> nat \<Rightarrow> nat" where
  "page_offset lps addr = addr mod 2 ^ lps"

definition splice_page :: "nat \<Rightarrow> nat \<Rightarrow> nat \<Rightarrow> nat" where
  "splice_page lps ppage off = ppage * 2 ^ lps + off mod 2 ^ lps"

text \<open>
  Modelled from the spec: \<open>slice (sized_extent lower size)\<close> keeps \<open>size\<close> bits starting at
  bit \<open>lower\<close>; \<open>slice_upper lower\<close> keeps every bit from \<open>lower\<close> upwards; splicing a
  slice into an address replaces exactly the bits of the slice's extent.
\<close>

definition slice :: "nat \<Rightarrow> nat \<Rightarrow> nat \<Rightarrow> nat" where
  "slice lower sz addr = (addr div 2 ^ lower) mod 2 ^ sz"

definition slice_upper :: "nat \<Rightarrow> nat \<Rightarrow> nat" where
  "slice_upper lower addr = addr div 2 ^ lower"

definition splice_bits :: "nat \<Rightarrow> nat \<Rightarrow> nat \<Rightarrow> nat \<Rightarrow> nat" where
  "splice_bits addr lower sz field =
     (addr div 2 ^ (lower + sz)) * 2 ^ (lower + sz) + (field mod 2 ^ sz) * 2 ^ lower
       + addr mod 2 ^ lower"

text \<open>
  Modelled from the spec: \<open>lowest_address_for_size\<close> is the first address above a region
  of the given size in bytes that starts at zero, as a 64-bit address.
\<close>

definition lowest_address_for_size :: "nat \<Rightarrow> nat" where
  "lowest_address_for_size sz = sz mod 2 ^ 64"

text \<open>\<open>VMEM_RESERVE_CAPACITY\<close>: one mebibyte or one page, whichever is larger, in bytes.\<close>

definition VMEM_RESERVE_CAPACITY :: "nat \<Rightarrow> nat" where
  "VMEM_RESERVE_CAPACITY lps = max (2 ^ lps) 1048576"

text \<open>\<open>pte_entry::byte_multiple\<close> (\<open>PTE_BYTES\<close> in vmem.h).\<close>

definition PTE_BYTES :: nat where
  "PTE_BYTES = 8"

section \<open>The VirtualMemory class\<close>

text \<open>
  The class as vmem.cc uses it: the two maps, the slot counter \<open>next_pte_page\<close>, the active
  PTE page, the bounds of the pool and the three constants. (vmem.h declares an earlier
  revision of the class; where the two differ the model follows vmem.cc.)

  The member \<open>pte_page_size\<close> is a size counted in page-table entries of \<open>PTE_BYTES\<close> bytes:
  the field holds \<open>pte_page_size.count()\<close>, the number of entries of a PTE page, and
  \<open>bytes{pte_page_size}.count()\<close> is the field times \<open>PTE_BYTES\<close>.
\<close>

record vmem =
  vpage_to_ppage_map :: "(nat \<times> nat) \<rightharpoonup> nat"
  page_table :: "(nat \<times> nat \<times> nat) \<rightharpoonup> nat"
  next_pte_page :: nat
  active_pte_page :: nat
  next_ppage :: nat
  last_ppage :: nat
  minor_fault_penalty :: nat
  pt_levels :: nat
  pte_page_size :: nat

text \<open>
  The member initialisers of the pool bounds. \<open>next_ppage\<close> is the page number of the
  first address above the reserved region; \<open>last_ppage\<close> is the page number of the first
  address above \<open>ipow (pte_page_size.count()) pt_levels\<close> pages, where the count is the
  number of entries of a PTE page, the level count is cast to \<open>unsigned\<close> on the way, and
  the pages are turned into bytes for the address.
\<close>

definition next_ppage_init :: "nat \<Rightarrow> nat" where
  "next_ppage_init lps = page_number lps (lowest_address_for_size (VMEM_RESERVE_CAPACITY lps))"

definition last_ppage_init :: "nat \<Rightarrow> nat \<Rightarrow> nat \<Rightarrow> nat" where
  "last_ppage_init lps page_table_page_size page_table_levels =
     page_number lps (lowest_address_for_size
       (ipow (page_table_page_size div PTE_BYTES) (page_table_levels mod 2 ^ 32) * 2 ^ lps))"

text \<open>
  The constructor. Its argument \<open>page_table_page_size\<close> is in bytes, and the assertions
  test the argument. Its three assertions are the three ways it can fail; the two warnings
  only print, so the memory controller argument is left out. The counter \<open>next_pte_page\<close>
  starts at zero.
\<close>

definition VirtualMemory :: "nat \<Rightarrow> nat \<Rightarrow> nat \<Rightarrow> nat \<Rightarrow> error + vmem" where
  "VirtualMemory lps page_table_page_size page_table_levels minor_penalty =
     (let s = \<lparr> vpage_to_ppage_map = Map.empty,
                 page_table = Map.empty,
                 next_pte_page = 0,
                 active_pte_page = 0,
                 next_ppage = next_ppage_init lps,
                 last_ppage = last_ppage_init lps page_table_page_size page_table_levels,
                 minor_fault_penalty = minor_penalty,
                 pt_levels = page_table_levels,
                 pte_page_size = page_table_page_size div PTE_BYTES \<rparr>
      in if \<not> page_table_page_size > 1024 then Inl AssertionFailure
         else if \<not> is_power_of_2 page_table_page_size then Inl AssertionFailure
         else if \<not> last_ppage s > next_ppage s then Inl AssertionFailure
         else Inr s)"

text \<open>
  \<open>shamt\<close> and \<open>get_offset\<close> take the logarithm of \<open>pte_page_size.count()\<close>, the number of
  entries of a PTE page. \<open>shamt\<close> computes in 64-bit unsigned arithmetic: \<open>level - 1\<close> wraps
  for level zero, and so does the product and the sum.
\<close>

definition shamt :: "nat \<Rightarrow> vmem \<Rightarrow> nat \<Rightarrow> nat" where
  "shamt lps s level =
     (lps + lg2 (pte_page_size s) * ((level + 2 ^ 64 - 1) mod 2 ^ 64)) mod 2 ^ 64"

definition get_offset :: "nat \<Rightarrow> vmem \<Rightarrow> nat \<Rightarrow> nat \<Rightarrow> nat" where
  "get_offset lps s vaddr level =
     (let lower = shamt lps s level;
          sz = lg2 (pte_page_size s)
      in slice lower sz vaddr)"

definition available_ppages :: "vmem \<Rightarrow> error + nat" where
  "available_ppages s =
     (if next_ppage s \<le> last_ppage s then Inr (last_ppage s - next_ppage s)
      else Inl AssertionFailure)"

definition ppage_front :: "vmem \<Rightarrow> error + nat" where
  "ppage_front s =
     (case available_ppages s of
        Inl e \<Rightarrow> Inl e
      | Inr n \<Rightarrow> if n > 0 then Inr (next_ppage s) else Inl AssertionFailure)"

text \<open>
  \<open>ppage_pop\<close> is only ever called after \<open>ppage_front\<close> has returned, that is with
  \<open>next_ppage < last_ppage\<close>, so the increment stays within the page-number type.
\<close>

definition ppage_pop :: "vmem \<Rightarrow> vmem" where
  "ppage_pop s = s\<lparr>next_ppage := next_ppage s + 1\<rparr>"

text \<open>
  \<open>va_to_pa\<close>: the argument \<open>ppage_front()\<close> of \<open>try_emplace\<close> is evaluated before the map
  is consulted, so its assertion is checked on every call.
\<close>

definition va_to_pa :: "nat \<Rightarrow> vmem \<Rightarrow> nat \<Rightarrow> nat \<Rightarrow> error + ((nat \<times> nat) \<times> vmem)" where
  "va_to_pa lps s cpu_num vaddr =
     (case ppage_front s of
        Inl e \<Rightarrow> Inl e
      | Inr front \<Rightarrow>
          (let key = (cpu_num, page_number lps vaddr) in
           case vpage_to_ppage_map s key of
             None \<Rightarrow>
               Inr ((splice_page lps front (page_offset lps vaddr), minor_fault_penalty s),
                    ppage_pop (s\<lparr>vpage_to_ppage_map := (vpage_to_ppage_map s)(key \<mapsto> front)\<rparr>))
           | Some ppage \<Rightarrow>
               Inr ((splice_page lps ppage (page_offset lps vaddr), 0), s)))"

text \<open>
  The counter \<open>next_pte_page\<close> is a slice between the bit given by the logarithm of the
  PTE-page size in bytes and bit \<open>lps\<close>: it counts PTE-page sized slots inside one physical
  page and wraps at their number.
\<close>

definition pte_slots :: "nat \<Rightarrow> vmem \<Rightarrow> nat" where
  "pte_slots lps s = 2 ^ (lps - lg2 (pte_page_size s * PTE_BYTES))"

text \<open>The address of slot \<open>cnt\<close> of physical page \<open>ppage\<close>: the splice of the two.\<close>

definition slot_address :: "nat \<Rightarrow> vmem \<Rightarrow> nat \<Rightarrow> nat \<Rightarrow> nat" where
  "slot_address lps s ppage cnt =
     ppage * 2 ^ lps + cnt * 2 ^ lg2 (pte_page_size s * PTE_BYTES)"

definition pte_key :: "nat \<Rightarrow> vmem \<Rightarrow> nat \<Rightarrow> nat \<Rightarrow> nat \<Rightarrow> nat \<times> nat \<times> nat" where
  "pte_key lps s cpu_num vaddr level = (cpu_num, level, slice_upper (shamt lps s level) vaddr)"

text \<open>
  The first statement of \<open>get_pte_pa\<close>: when the counter, read as a page offset, is zero, a
  page is popped and becomes the active PTE page. The counter stays below the number of
  slots, where its page offset is zero exactly when it is zero itself. This happens at the
  start of every call, whether or not the call goes on to create an entry.
\<close>

definition activate_pte_page :: "vmem \<Rightarrow> error + vmem" where
  "activate_pte_page s =
     (if next_pte_page s = 0 then
        (case ppage_front s of
           Inl e \<Rightarrow> Inl e
         | Inr front \<Rightarrow> Inr (ppage_pop (s\<lparr>active_pte_page := front\<rparr>)))
      else Inr s)"

definition get_pte_pa :: "nat \<Rightarrow> vmem \<Rightarrow> nat \<Rightarrow> nat \<Rightarrow> nat \<Rightarrow> error + ((nat \<times> nat) \<times> vmem)" where
  "get_pte_pa lps s cpu_num vaddr level =
     (case activate_pte_page s of
        Inl e \<Rightarrow> Inl e
      | Inr s1 \<Rightarrow>
          (let key = pte_key lps s1 cpu_num vaddr level;
               offset = get_offset lps s1 vaddr level;
               sz = lg2 (pte_page_size s1)
           in case page_table s1 key of
                None \<Rightarrow>
                  (let entry = slot_address lps s1 (active_pte_page s1) (next_pte_page s1) in
                   Inr ((splice_bits entry (lg2 PTE_BYTES) sz offset, minor_fault_penalty s1),
                        s1\<lparr>page_table := (page_table s1)(key \<mapsto> entry),
                           next_pte_page := (next_pte_page s1 + 1) mod pte_slots lps s1\<rparr>))
              | Some entry \<Rightarrow>
                  Inr ((splice_bits entry (lg2 PTE_BYTES) sz offset, 0), s1)))"

section \<open>Reassembling an address from its fields\<close>

text \<open>
  The spec's reassembly, in its words: the page offset plus, for every level from 1 to \<open>n\<close>,
  the index field \<open>get_offset vaddr level\<close> put back at bit \<open>shamt level\<close>.
\<close>

fun reassemble :: "nat \<Rightarrow> vmem \<Rightarrow> nat \<Rightarrow> nat \<Rightarrow> nat" where
  "reassemble lps s vaddr 0 = page_offset lps vaddr"
| "reassemble lps s vaddr (Suc n) =
     reassemble lps s vaddr n + get_offset lps s vaddr (Suc n) * 2 ^ shamt lps s (Suc n)"

section \<open>Sequences of calls\<close>

text \<open>
  A caller that translates a list of (requester, virtual address) pairs one after the
  other, collecting the results; the first failed assertion ends the run.
\<close>

fun va_to_pa_calls :: "nat \<Rightarrow> vmem \<Rightarrow> (nat \<times> nat) list \<Rightarrow> error + ((nat \<times> nat) list \<times> vmem)" where
  "va_to_pa_calls lps s [] = Inr ([], s)"
| "va_to_pa_calls lps s (c # calls) =
     (case va_to_pa lps s (fst c) (snd c) of
        Inl e \<Rightarrow> Inl e
      | Inr (r, s1) \<Rightarrow>
          (case va_to_pa_calls lps s1 calls of
             Inl e \<Rightarrow> Inl e
           | Inr (rs, s2) \<Rightarrow> Inr (r # rs, s2)))"

text \<open>The (requester, virtual page) pair of a call: the key of \<open>vpage_to_ppage_map\<close>.\<close>

definition vpage :: "nat \<Rightarrow> nat \<times> nat \<Rightarrow> nat \<times> nat" where
  "vpage lps c = (fst c, page_number lps (snd c))"

text \<open>
  The distinct keys of a list that are not in \<open>seen\<close>, in the order of their first
  occurrence.
\<close>

fun first_seen :: "'a set \<Rightarrow> 'a list \<Rightarrow> 'a list" where
  "first_seen seen [] = []"
| "first_seen seen (x # xs) =
     (if x \<in> seen then first_seen seen xs else x # first_seen (insert x seen) xs)"

text \<open>
  The virtual pages of a run that are not mapped when the run starts, each once, in the
  order of their first access.
\<close>

definition new_pages :: "nat \<Rightarrow> vmem \<Rightarrow> (nat \<times> nat) list \<Rightarrow> (nat \<times> nat) list" where
  "new_pages lps s calls = first_seen (dom (vpage_to_ppage_map s)) (map (vpage lps) calls)"

text \<open>The same for a list of (requester, virtual address, level) lookups of \<open>get_pte_pa\<close>.\<close>

fun get_pte_pa_calls :: "nat \<Rightarrow> vmem \<Rightarrow> (nat \<times> nat \<times> nat) list \<Rightarrow> error + ((nat \<times> nat) list \<times> vmem)" where
  "get_pte_pa_calls lps s [] = Inr ([], s)"
| "get_pte_pa_calls lps s (c # calls) =
     (case get_pte_pa lps s (fst c) (fst (snd c)) (snd (snd c)) of
        Inl e \<Rightarrow> Inl e
      | Inr (r, s1) \<Rightarrow>
          (case get_pte_pa_calls lps s1 calls of
             Inl e \<Rightarrow> Inl e
           | Inr (rs, s2) \<Rightarrow> Inr (r # rs, s2)))"

text \<open>The page-table key of a lookup.\<close>

definition call_key :: "nat \<Rightarrow> vmem \<Rightarrow> nat \<times> nat \<times> nat \<Rightarrow> nat \<times> nat \<times> nat" where
  "call_key lps s c = pte_key lps s (fst c) (fst (snd c)) (snd (snd c))"

section \<open>The page-table walker\<close>

text \<open>
  Modelled from the spec: the page structure cache (PSCL) of one intermediate level; the
  walker sources (ptw.h, ptw.cc) are not among the examined files. A cache has a fixed
  number of sets and ways and, as the walker tests construct it, a shift amount; every set
  keeps its entries (key, cached PTE address) most recently filled first. \<open>pscl_probe\<close> is
  the read-only lookup. \<open>pscl_fill\<close> inserts or updates the entry in its set and, when the
  set overflows, drops the least recently filled one.
\<close>

record pscl =
  pscl_sets :: nat
  pscl_ways :: nat
  pscl_shamt :: nat
  pscl_entries :: "nat \<Rightarrow> (nat \<times> nat) list"

definition pscl_probe :: "pscl \<Rightarrow> nat \<Rightarrow> nat option" where
  "pscl_probe c tag = map_of (pscl_entries c (tag mod pscl_sets c)) tag"

definition pscl_fill :: "pscl \<Rightarrow> nat \<Rightarrow> nat \<Rightarrow> pscl" where
  "pscl_fill c tag paddr =
     c\<lparr>pscl_entries := (pscl_entries c)
         (tag mod pscl_sets c :=
            take (pscl_ways c)
              ((tag, paddr) # filter (\<lambda>e. fst e \<noteq> tag) (pscl_entries c (tag mod pscl_sets c))))\<rparr>"

text \<open>
  Modelled from the spec: the key of a level's cache is the part of the virtual address
  shared by all addresses on this level's page-table path: the bits from the cache's shift
  amount upwards.
\<close>

definition pscl_tag :: "pscl \<Rightarrow> nat \<Rightarrow> nat" where
  "pscl_tag c vaddr = slice_upper (pscl_shamt c) vaddr"

text \<open>
  Modelled from the spec: the walker owns the virtual memory and one cache per
  intermediate level (the levels above the leaf, 2 up to \<open>pt_levels\<close>). Requests are walked
  one after the other; admission control, merging and the per-cycle scheduling of the
  spec are not part of this model.
\<close>

record ptw =
  ptw_vmem :: vmem
  ptw_pscl :: "nat \<Rightarrow> pscl"

definition pscl_hit :: "ptw \<Rightarrow> nat \<Rightarrow> nat \<Rightarrow> bool" where
  "pscl_hit w vaddr level =
     (pscl_probe (ptw_pscl w level) (pscl_tag (ptw_pscl w level) vaddr) \<noteq> None)"

text \<open>
  Modelled from the spec: step 1 of the walk. The caches are probed from the root level
  downward; the hit furthest down the scan is the deepest level already resolved, and the
  walk resumes at the level below it, or at the root when no cache hits.
\<close>

definition resume_level :: "ptw \<Rightarrow> nat \<Rightarrow> nat" where
  "resume_level w vaddr =
     (let hits = filter (pscl_hit w vaddr) (rev [2..<Suc (pt_levels (ptw_vmem w))])
      in if hits = [] then pt_levels (ptw_vmem w) else last hits - 1)"

text \<open>
  Modelled from the spec: steps 2 and 3. For every level from the resumed one down to 1
  the walker issues a read at the address \<open>get_pte_pa\<close> returns, adds the penalty of that
  call and the time \<open>hop\<close> the downstream port takes to the latency, and on completion fills
  the cache of the level (level 1 has none) before it proceeds to the next lower level.
  The result lists the issued addresses in order.
\<close>

fun fetch_levels :: "nat \<Rightarrow> nat \<Rightarrow> nat \<Rightarrow> nat \<Rightarrow> nat \<Rightarrow> ptw \<Rightarrow> error + ((nat list \<times> nat) \<times> ptw)" where
  "fetch_levels lps hop cpu vaddr 0 w = Inr (([], 0), w)"
| "fetch_levels lps hop cpu vaddr (Suc l) w =
     (case get_pte_pa lps (ptw_vmem w) cpu vaddr (Suc l) of
        Inl e \<Rightarrow> Inl e
      | Inr (r, vm1) \<Rightarrow>
          (let caches = (if 2 \<le> Suc l
                         then (ptw_pscl w)(Suc l := pscl_fill (ptw_pscl w (Suc l))
                                (pscl_tag (ptw_pscl w (Suc l)) vaddr) (fst r))
                         else ptw_pscl w)
           in case fetch_levels lps hop cpu vaddr l (w\<lparr>ptw_vmem := vm1, ptw_pscl := caches\<rparr>) of
                Inl e \<Rightarrow> Inl e
              | Inr ((issued, latency), w2) \<Rightarrow> Inr ((fst r # issued, snd r + hop + latency), w2)))"

text \<open>
  Modelled from the spec: step 4. After level 1 the walker calls \<open>va_to_pa\<close> and returns the
  data address, the accumulated latency and the addresses it issued downstream.
\<close>

definition walk :: "nat \<Rightarrow> nat \<Rightarrow> ptw \<Rightarrow> nat \<Rightarrow> nat \<Rightarrow> error + ((nat \<times> nat \<times> nat list) \<times> ptw)" where
  "walk lps hop w cpu vaddr =
     (case fetch_levels lps hop cpu vaddr (resume_level w vaddr) w of
        Inl e \<Rightarrow> Inl e
      | Inr ((issued, latency), w1) \<Rightarrow>
          (case va_to_pa lps (ptw_vmem w1) cpu vaddr of
             Inl e \<Rightarrow> Inl e
           | Inr (r, vm2) \<Rightarrow> Inr ((fst r, latency + snd r, issued), w1\<lparr>ptw_vmem := vm2\<rparr>)))"

section \<open>Example configurations\<close>

text \<open>
  The state the constructor returns for the configuration of the walker tests (4 KiB pages,
  4 KiB PTE pages, five levels, penalty 200), and the one for 2 KiB PTE pages and two
  levels with an arbitrary penalty.
\<close>

definition test_vmem :: vmem where
  "test_vmem = \<lparr> vpage_to_ppage_map = Map.empty, page_table = Map.empty, next_pte_page = 0,
     active_pte_page = 0, next_ppage = 256, last_ppage = 35184372088832,
     minor_fault_penalty = 200, pt_levels = 5, pte_page_size = 512 \<rparr>"

definition small_vmem :: "nat \<Rightarrow> vmem" where
  "small_vmem penalty = \<lparr> vpage_to_ppage_map = Map.empty, page_table = Map.empty,
     next_pte_page = 0, active_pte_page = 0, next_ppage = 256, last_ppage = 65536,
     minor_fault_penalty = penalty, pt_levels = 2, pte_page_size = 256 \<rparr>"

text \<open>
  The walker of the tests: the five-level virtual memory and empty caches of one set and
  one way, the cache of a level keyed from the shift amount of the level below.
\<close>

definition test_ptw :: ptw where
  "test_ptw = \<lparr> ptw_vmem = test_vmem,
     ptw_pscl = (\<lambda>level. \<lparr> pscl_sets = 1, pscl_ways = 1,
                          pscl_shamt = shamt 12 test_vmem (level - 1),
                          pscl_entries = (\<lambda>i. []) \<rparr>) \<rparr>"

section \<open>Basic facts\<close>

lemma lg2_pow2: "lg2 (2 ^ k) = k"
proof (induction k)
  case 0
  show ?case by (simp add: lg2.simps)
next
  case (Suc k)
  have "lg2 (2 ^ Suc k) = Suc (lg2 (2 ^ Suc k div 2))"
    by (subst lg2.simps) simp
  with Suc show ?case by simp
qed

lemma lg2_4096: "lg2 4096 = 12"
  using lg2_pow2 [of 12] by simp

lemma lg2_2048: "lg2 2048 = 11"
  using lg2_pow2 [of 11] by simp

lemma lg2_512: "lg2 512 = 9"
  using lg2_pow2 [of 9] by simp

lemma lg2_256: "lg2 256 = 8"
  using lg2_pow2 [of 8] by simp

lemma lg2_8: "lg2 8 = 3"
  using lg2_pow2 [of 3] by simp

lemma lg2_PTE_BYTES: "lg2 PTE_BYTES = 3"
  using lg2_pow2 [of 3] by (simp add: PTE_BYTES_def)

lemma ppage_front_Inr:
  "ppage_front s = Inr p \<longleftrightarrow> next_ppage s < last_ppage s \<and> p = next_ppage s"
  by (auto simp: ppage_front_def available_ppages_def)

lemma ppage_front_Inl:
  "ppage_front s = Inl e \<longleftrightarrow> \<not> next_ppage s < last_ppage s"
  by (cases e) (auto simp: ppage_front_def available_ppages_def)

lemma activate_pte_page_Inr:
  "activate_pte_page s = Inr s1 \<longleftrightarrow>
     (if next_pte_page s = 0
      then next_ppage s < last_ppage s \<and>
           s1 = s\<lparr>active_pte_page := next_ppage s, next_ppage := next_ppage s + 1\<rparr>
      else s1 = s)"
  by (auto simp: activate_pte_page_def ppage_front_def available_ppages_def ppage_pop_def)

lemma activate_pte_page_Inl:
  "activate_pte_page s = Inl e \<longleftrightarrow> next_pte_page s = 0 \<and> \<not> next_ppage s < last_ppage s"
  by (cases e) (auto simp: activate_pte_page_def ppage_front_def available_ppages_def)

lemma activate_keeps:
  assumes "activate_pte_page s = Inr s1"
  shows "page_table s1 = page_table s" "pte_page_size s1 = pte_page_size s"
    "minor_fault_penalty s1 = minor_fault_penalty s" "next_pte_page s1 = next_pte_page s"
    "last_ppage s1 = last_ppage s" "vpage_to_ppage_map s1 = vpage_to_ppage_map s"
    "pt_levels s1 = pt_levels s"
  using assms by (auto simp: activate_pte_page_Inr split: if_splits)

lemma pte_key_cong: "pte_page_size s1 = pte_page_size s \<Longrightarrow> pte_key lps s1 = pte_key lps s"
  by (simp add: pte_key_def shamt_def fun_eq_iff)

lemma get_pte_pa_returns:
  "(\<exists>r s'. get_pte_pa lps s cpu vaddr level = Inr (r, s')) \<longleftrightarrow>
     (next_pte_page s \<noteq> 0 \<or> next_ppage s < last_ppage s)"
proof (cases "activate_pte_page s")
  case (Inl e)
  then have "get_pte_pa lps s cpu vaddr level = Inl e"
    by (simp add: get_pte_pa_def)
  moreover from Inl have "next_pte_page s = 0 \<and> \<not> next_ppage s < last_ppage s"
    by (simp add: activate_pte_page_Inl)
  ultimately show ?thesis by simp
next
  case (Inr s1)
  then have "next_pte_page s \<noteq> 0 \<or> next_ppage s < last_ppage s"
    by (auto simp: activate_pte_page_Inr split: if_splits)
  with Inr show ?thesis
    by (auto simp: get_pte_pa_def Let_def split: option.splits)
qed

lemma get_pte_pa_penalty:
  assumes "get_pte_pa lps s cpu vaddr level = Inr ((paddr, pen), s')"
  shows "pen = (if pte_key lps s cpu vaddr level \<in> dom (page_table s) then 0 else minor_fault_penalty s)"
    and "dom (page_table s') = insert (pte_key lps s cpu vaddr level) (dom (page_table s))"
    and "\<And>k e. page_table s k = Some e \<Longrightarrow> page_table s' k = Some e"
proof -
  from assms obtain s1 where a: "activate_pte_page s = Inr s1"
    by (auto simp: get_pte_pa_def split: sum.splits)
  note k = activate_keeps [OF a] pte_key_cong [OF activate_keeps(2) [OF a]]
  show "pen = (if pte_key lps s cpu vaddr level \<in> dom (page_table s) then 0 else minor_fault_penalty s)"
    using assms a k by (auto simp: get_pte_pa_def Let_def split: option.splits)
  show "dom (page_table s') = insert (pte_key lps s cpu vaddr level) (dom (page_table s))"
    using assms a k by (auto simp: get_pte_pa_def Let_def split: option.splits)
  show "\<And>k e. page_table s k = Some e \<Longrightarrow> page_table s' k = Some e"
    using assms a k by (auto simp: get_pte_pa_def Let_def split: option.splits)
qed

lemma is_power_of_2_4096: "is_power_of_2 4096"
  by (simp add: is_power_of_2_def lg2_4096)

lemma VirtualMemory_test: "VirtualMemory 12 4096 5 200 = Inr test_vmem"
  by (simp add: VirtualMemory_def Let_def is_power_of_2_4096 next_ppage_init_def
      last_ppage_init_def page_number_def lowest_address_for_size_def
      VMEM_RESERVE_CAPACITY_def ipow_def PTE_BYTES_def test_vmem_def)

lemma shamt_plain:
  assumes "1 \<le> level" "level < 2 ^ 64" "lps + lg2 (pte_page_size s) * (level - 1) < 2 ^ 64"
  shows "shamt lps s level = lps + lg2 (pte_page_size s) * (level - 1)"
proof -
  have "level + 2 ^ 64 - 1 = (level - 1) + 2 ^ 64" using assms(1) by simp
  then have "(level + 2 ^ 64 - 1) mod 2 ^ 64 = (level - 1) mod 2 ^ 64"
    by (metis mod_add_self2)
  also have "\<dots> = level - 1" using assms(2) by simp
  finally show ?thesis using assms(3) by (simp add: shamt_def)
qed

lemma get_pte_pa_test_level1:
  "get_pte_pa 12 test_vmem 0 3735928559 1 =
     Inr ((1050328, 200),
          test_vmem\<lparr>page_table := [(0, 1, 912091) \<mapsto> 1048576], next_pte_page := 0,
                    active_pte_page := 256, next_ppage := 257\<rparr>)"
  by (simp add: get_pte_pa_def activate_pte_page_def ppage_front_def available_ppages_def
      ppage_pop_def test_vmem_def Let_def pte_key_def shamt_def slice_upper_def get_offset_def
      slice_def slot_address_def splice_bits_def pte_slots_def PTE_BYTES_def lg2_4096 lg2_512
      lg2_8)

lemma get_offset_cong:
  "pte_page_size s1 = pte_page_size s \<Longrightarrow> get_offset lps s1 = get_offset lps s"
  by (simp add: get_offset_def shamt_def fun_eq_iff)

lemma get_pte_pa_paddr:
  assumes "get_pte_pa lps s cpu vaddr level = Inr ((paddr, pen), s')"
  shows "\<exists>entry. page_table s' (pte_key lps s cpu vaddr level) = Some entry \<and>
           paddr = splice_bits entry (lg2 PTE_BYTES) (lg2 (pte_page_size s))
                     (get_offset lps s vaddr level)"
    and "pte_page_size s' = pte_page_size s"
    and "minor_fault_penalty s' = minor_fault_penalty s"
    and "last_ppage s' = last_ppage s"
    and "vpage_to_ppage_map s' = vpage_to_ppage_map s"
proof -
  from assms obtain s1 where a: "activate_pte_page s = Inr s1"
    by (auto simp: get_pte_pa_def split: sum.splits)
  note k = activate_keeps [OF a] pte_key_cong [OF activate_keeps(2) [OF a]]
    get_offset_cong [OF activate_keeps(2) [OF a]]
  show "\<exists>entry. page_table s' (pte_key lps s cpu vaddr level) = Some entry \<and>
           paddr = splice_bits entry (lg2 PTE_BYTES) (lg2 (pte_page_size s))
                     (get_offset lps s vaddr level)"
    using assms a k by (auto simp: get_pte_pa_def Let_def split: option.splits)
  show "pte_page_size s' = pte_page_size s"
    using assms a k by (auto simp: get_pte_pa_def Let_def split: option.splits)
  show "minor_fault_penalty s' = minor_fault_penalty s"
    using assms a k by (auto simp: get_pte_pa_def Let_def split: option.splits)
  show "last_ppage s' = last_ppage s"
    using assms a k by (auto simp: get_pte_pa_def Let_def split: option.splits)
  show "vpage_to_ppage_map s' = vpage_to_ppage_map s"
    using assms a k by (auto simp: get_pte_pa_def Let_def split: option.splits)
qed

lemma get_pte_pa_hit:
  assumes "page_table s (pte_key lps s cpu vaddr level) = Some entry"
    and "get_pte_pa lps s cpu vaddr level = Inr ((paddr, pen), s')"
  shows "paddr = splice_bits entry (lg2 PTE_BYTES) (lg2 (pte_page_size s))
                     (get_offset lps s vaddr level)"
    and "pen = 0" and "page_table s' = page_table s" and "next_pte_page s' = next_pte_page s"
proof -
  from assms(2) obtain s1 where a: "activate_pte_page s = Inr s1"
    by (auto simp: get_pte_pa_def split: sum.splits)
  note k = activate_keeps [OF a] pte_key_cong [OF activate_keeps(2) [OF a]]
    get_offset_cong [OF activate_keeps(2) [OF a]]
  show "paddr = splice_bits entry (lg2 PTE_BYTES) (lg2 (pte_page_size s))
                     (get_offset lps s vaddr level)"
    using assms a k by (auto simp: get_pte_pa_def Let_def split: option.splits)
  show "pen = 0"
    using assms a k by (auto simp: get_pte_pa_def Let_def split: option.splits)
  show "page_table s' = page_table s"
    using assms a k by (auto simp: get_pte_pa_def Let_def split: option.splits)
  show "next_pte_page s' = next_pte_page s"
    using assms a k by (auto simp: get_pte_pa_def Let_def split: option.splits)
qed

lemma get_pte_pa_next_ppage:
  assumes "get_pte_pa lps s cpu vaddr level = Inr (r, s')"
  shows "next_ppage s' = (if next_pte_page s = 0 then next_ppage s + 1 else next_ppage s)"
    and "next_pte_page s = 0 \<Longrightarrow> next_ppage s < last_ppage s"
proof -
  from assms obtain s1 where a: "activate_pte_page s = Inr s1"
    by (auto simp: get_pte_pa_def split: sum.splits)
  have n: "next_ppage s' = next_ppage s1" "last_ppage s' = last_ppage s1"
    using assms a by (auto simp: get_pte_pa_def Let_def split: option.splits)
  from a show "next_ppage s' = (if next_pte_page s = 0 then next_ppage s + 1 else next_ppage s)"
    unfolding n by (auto simp: activate_pte_page_Inr split: if_splits)
  from a show "next_pte_page s = 0 \<Longrightarrow> next_ppage s < last_ppage s"
    by (auto simp: activate_pte_page_Inr split: if_splits)
qed

lemma va_to_pa_Inr:
  "va_to_pa lps s cpu vaddr = Inr (r, s') \<longleftrightarrow>
     next_ppage s < last_ppage s \<and>
     (case vpage_to_ppage_map s (cpu, page_number lps vaddr) of
        None \<Rightarrow> r = (splice_page lps (next_ppage s) (page_offset lps vaddr), minor_fault_penalty s) \<and>
                s' = s\<lparr>vpage_to_ppage_map := (vpage_to_ppage_map s)((cpu, page_number lps vaddr) \<mapsto> next_ppage s),
                       next_ppage := next_ppage s + 1\<rparr>
      | Some ppage \<Rightarrow> r = (splice_page lps ppage (page_offset lps vaddr), 0) \<and> s' = s)"
  by (auto simp: va_to_pa_def ppage_front_def available_ppages_def ppage_pop_def Let_def
      split: option.splits)

lemma va_to_pa_returns:
  "(\<exists>r s'. va_to_pa lps s cpu vaddr = Inr (r, s')) \<longleftrightarrow> next_ppage s < last_ppage s"
  by (cases "vpage_to_ppage_map s (cpu, page_number lps vaddr)") (auto simp: va_to_pa_Inr)


lemma page_number_splice_page: "page_number lps (splice_page lps p off) = p"
  by (simp add: page_number_def splice_page_def)

lemma is_power_of_2_2048: "is_power_of_2 2048"
  by (simp add: is_power_of_2_def lg2_2048)

lemma VirtualMemory_small: "VirtualMemory 12 2048 2 penalty = Inr (small_vmem penalty)"
  by (simp add: VirtualMemory_def Let_def is_power_of_2_2048 next_ppage_init_def
      last_ppage_init_def page_number_def lowest_address_for_size_def
      VMEM_RESERVE_CAPACITY_def ipow_def PTE_BYTES_def small_vmem_def)

lemmas get_pte_pa_eval = get_pte_pa_def activate_pte_page_def ppage_front_def
  available_ppages_def ppage_pop_def Let_def pte_key_def shamt_def slice_upper_def
  get_offset_def slice_def slot_address_def splice_bits_def pte_slots_def PTE_BYTES_def
  lg2_4096 lg2_2048 lg2_512 lg2_256 lg2_8

lemmas va_to_pa_eval = va_to_pa_def ppage_front_def available_ppages_def ppage_pop_def Let_def
  page_number_def page_offset_def splice_page_def

lemma next_ppage_init_eq:
  assumes "lps < 64"
  shows "next_ppage_init lps = max (2 ^ lps) 1048576 div 2 ^ lps"
proof -
  have "(2::nat) ^ lps < 2 ^ 64" using assms by (intro power_strict_increasing) simp_all
  then have "max ((2::nat) ^ lps) 1048576 < 2 ^ 64" by simp
  then show ?thesis
    by (simp add: next_ppage_init_def page_number_def lowest_address_for_size_def
        VMEM_RESERVE_CAPACITY_def)
qed

lemma mod_pow2_shift:
  assumes "lps \<le> 64"
  shows "((x mod 2 ^ 64) * 2 ^ lps mod 2 ^ 64) div 2 ^ lps = (x::nat) mod 2 ^ (64 - lps)"
proof -
  have p: "(2::nat) ^ 64 = 2 ^ (64 - lps) * 2 ^ lps"
    using assms by (simp flip: power_add)
  have "(x mod 2 ^ 64) * 2 ^ lps mod 2 ^ 64 =
      (x mod 2 ^ 64) * 2 ^ lps mod (2 ^ (64 - lps) * 2 ^ lps)"
    by (simp only: p [symmetric])
  also have "\<dots> = ((x mod 2 ^ 64) mod 2 ^ (64 - lps)) * 2 ^ lps"
    by (rule mult_mod_left [symmetric])
  also have "(x mod 2 ^ 64) mod 2 ^ (64 - lps) = x mod 2 ^ (64 - lps)"
    by (rule mod_mod_cancel, rule le_imp_power_dvd) simp
  finally show ?thesis by simp
qed

lemma last_ppage_init_eq:
  assumes "lps \<le> 64"
  shows "last_ppage_init lps psz levels =
     (psz div PTE_BYTES) ^ (levels mod 2 ^ 32) mod 2 ^ (64 - lps)"
  unfolding last_ppage_init_def page_number_def lowest_address_for_size_def ipow_def
  by (rule mod_pow2_shift [OF assms])

lemma VirtualMemory_Inr:
  "VirtualMemory lps psz levels pen = Inr s \<longleftrightarrow>
     1024 < psz \<and> is_power_of_2 psz \<and> next_ppage_init lps < last_ppage_init lps psz levels \<and>
     s = \<lparr> vpage_to_ppage_map = Map.empty, page_table = Map.empty, next_pte_page = 0,
           active_pte_page = 0, next_ppage = next_ppage_init lps,
           last_ppage = last_ppage_init lps psz levels, minor_fault_penalty = pen,
           pt_levels = levels, pte_page_size = psz div PTE_BYTES \<rparr>"
  by (auto simp: VirtualMemory_def Let_def)

lemma next_ppage_init_bytes:
  assumes "lps < 64"
  shows "next_ppage_init lps * 2 ^ lps = max (2 ^ lps) 1048576"
proof (cases "lps \<le> 20")
  case True
  have "(1048576::nat) = 2 ^ 20" by simp
  also have "\<dots> = 2 ^ (20 - lps) * 2 ^ lps"
    using True by (simp flip: power_add)
  finally have e: "(1048576::nat) = 2 ^ (20 - lps) * 2 ^ lps" .
  have "(2::nat) ^ lps \<le> 2 ^ 20" using True by (intro power_increasing) simp_all
  then have mx: "max ((2::nat) ^ lps) 1048576 = 1048576" by simp
  have "next_ppage_init lps = 1048576 div 2 ^ lps"
    unfolding next_ppage_init_eq [OF assms] mx ..
  also have "\<dots> = (2 ^ (20 - lps) * 2 ^ lps) div 2 ^ lps"
    using e by (rule arg_cong [where f = "\<lambda>x. x div 2 ^ lps"])
  also have "\<dots> = 2 ^ (20 - lps)" by simp
  finally have "next_ppage_init lps * 2 ^ lps = 2 ^ (20 - lps) * 2 ^ lps" by simp
  also have "\<dots> = 1048576" using e by simp
  finally show ?thesis unfolding mx .
next
  case False
  then have "(2::nat) ^ 20 \<le> 2 ^ lps" by (intro power_increasing) simp_all
  then have "max ((2::nat) ^ lps) 1048576 = 2 ^ lps" by simp
  then show ?thesis by (simp add: next_ppage_init_eq [OF assms])
qed

lemma va_to_pa_test:
  "va_to_pa 12 test_vmem 0 3735928559 =
     Inr ((1052399, 200),
          test_vmem\<lparr>vpage_to_ppage_map := [(0, 912091) \<mapsto> 256], next_ppage := 257\<rparr>)"
  by (simp add: va_to_pa_eval test_vmem_def)


lemma get_offset_less: "get_offset lps s vaddr level < 2 ^ lg2 (pte_page_size s)"
  by (simp add: get_offset_def slice_def Let_def)

lemma mod_pow2_split: "(v::nat) mod 2 ^ (a + b) = v mod 2 ^ a + (v div 2 ^ a) mod 2 ^ b * 2 ^ a"
  by (simp add: power_add mod_mult2_eq)

lemma reassemble_mod:
  assumes "n < 2 ^ 64" "lps + lg2 (pte_page_size s) * n < 2 ^ 64"
  shows "reassemble lps s vaddr n = vaddr mod 2 ^ (lps + lg2 (pte_page_size s) * n)"
  using assms
proof (induction n)
  case 0
  show ?case by (simp add: page_offset_def)
next
  case (Suc n)
  let ?w = "lg2 (pte_page_size s)"
  have le: "lps + ?w * n \<le> lps + ?w * Suc n" by simp
  with Suc.prems have b: "n < 2 ^ 64" "lps + ?w * n < 2 ^ 64" by simp_all
  have sh: "shamt lps s (Suc n) = lps + ?w * n"
    using shamt_plain [of "Suc n" lps s] Suc.prems b by simp
  have "reassemble lps s vaddr (Suc n) =
      vaddr mod 2 ^ (lps + ?w * n) + (vaddr div 2 ^ (lps + ?w * n)) mod 2 ^ ?w * 2 ^ (lps + ?w * n)"
    using Suc.IH [OF b] by (simp add: sh get_offset_def slice_def Let_def)
  also have "\<dots> = vaddr mod 2 ^ ((lps + ?w * n) + ?w)"
    by (rule mod_pow2_split [symmetric])
  also have "(lps + ?w * n) + ?w = lps + ?w * Suc n" by simp
  finally show ?case .
qed

lemma reassemble_numeral:
  "reassemble lps s vaddr (numeral k) =
     reassemble lps s vaddr (pred_numeral k) +
       get_offset lps s vaddr (numeral k) * 2 ^ shamt lps s (numeral k)"
  by (simp add: numeral_eq_Suc)

lemma reassemble_1:
  "reassemble lps s vaddr 1 = page_offset lps vaddr + get_offset lps s vaddr 1 * 2 ^ shamt lps s 1"
  by simp

lemma map_le_Some: "m \<subseteq>\<^sub>m m' \<Longrightarrow> m k = Some v \<Longrightarrow> m' k = Some v"
  by (metis domI map_le_def)

lemma first_seen_set: "set (first_seen seen xs) = set xs - seen"
  by (induction xs arbitrary: seen) auto

lemma first_seen_distinct: "distinct (first_seen seen xs)"
  by (induction xs arbitrary: seen) (auto simp: first_seen_set)

lemma va_to_pa_step:
  assumes "va_to_pa lps s (fst c) (snd c) = Inr (r, s1)"
  shows "dom (vpage_to_ppage_map s1) = insert (vpage lps c) (dom (vpage_to_ppage_map s))"
    and "vpage_to_ppage_map s \<subseteq>\<^sub>m vpage_to_ppage_map s1"
    and "minor_fault_penalty s1 = minor_fault_penalty s"
    and "last_ppage s1 = last_ppage s"
    and "next_ppage s < last_ppage s"
    and "vpage lps c \<in> dom (vpage_to_ppage_map s) \<Longrightarrow> s1 = s \<and> snd r = 0"
    and "vpage lps c \<notin> dom (vpage_to_ppage_map s) \<Longrightarrow>
           next_ppage s1 = next_ppage s + 1 \<and> snd r = minor_fault_penalty s \<and>
           vpage_to_ppage_map s1 (vpage lps c) = Some (next_ppage s)"
    and "fst r = splice_page lps (the (vpage_to_ppage_map s1 (vpage lps c))) (page_offset lps (snd c))"
  using assms
  by (auto simp: va_to_pa_Inr vpage_def map_le_def split: option.splits)

lemma va_to_pa_calls_Cons:
  "va_to_pa_calls lps s (c # calls) = Inr (rs, s2) \<longleftrightarrow>
     (\<exists>r s1 rs1. va_to_pa lps s (fst c) (snd c) = Inr (r, s1) \<and>
        va_to_pa_calls lps s1 calls = Inr (rs1, s2) \<and> rs = r # rs1)"
  by (auto split: sum.splits)

lemma va_to_pa_calls_returns:
  "next_ppage s + length (first_seen (dom (vpage_to_ppage_map s)) (map (vpage lps) calls)) < last_ppage s
     \<Longrightarrow> \<exists>rs s'. va_to_pa_calls lps s calls = Inr (rs, s')"
proof (induction calls arbitrary: s)
  case Nil
  show ?case by simp
next
  case (Cons c calls)
  then have "next_ppage s < last_ppage s" by simp
  then obtain r s1 where c1: "va_to_pa lps s (fst c) (snd c) = Inr (r, s1)"
    using va_to_pa_returns [of lps s "fst c" "snd c"] by auto
  note st = va_to_pa_step [OF c1]
  have "next_ppage s1 + length (first_seen (dom (vpage_to_ppage_map s1)) (map (vpage lps) calls))
      < last_ppage s1"
  proof (cases "vpage lps c \<in> dom (vpage_to_ppage_map s)")
    case True
    with st(6) Cons.prems show ?thesis by simp
  next
    case False
    with st(1,4) st(7) Cons.prems show ?thesis by simp
  qed
  from Cons.IH [OF this] c1 show ?case by (auto simp: va_to_pa_calls_Cons)
qed

lemma va_to_pa_calls_keeps:
  assumes "va_to_pa_calls lps s calls = Inr (rs, s')"
  shows "vpage_to_ppage_map s \<subseteq>\<^sub>m vpage_to_ppage_map s' \<and>
    dom (vpage_to_ppage_map s') = dom (vpage_to_ppage_map s) \<union> set (map (vpage lps) calls) \<and>
    minor_fault_penalty s' = minor_fault_penalty s \<and>
    length rs = length calls \<and>
    next_ppage s' =
      next_ppage s + length (first_seen (dom (vpage_to_ppage_map s)) (map (vpage lps) calls)) \<and>
    sum_list (map snd rs) =
      length (first_seen (dom (vpage_to_ppage_map s)) (map (vpage lps) calls)) * minor_fault_penalty s"
  using assms
proof (induction calls arbitrary: s rs)
  case Nil
  then show ?case by auto
next
  case (Cons c calls)
  from va_to_pa_calls_Cons [THEN iffD1, OF Cons.prems]
  obtain r s1 rs1 where c1: "va_to_pa lps s (fst c) (snd c) = Inr (r, s1)"
    and cs: "va_to_pa_calls lps s1 calls = Inr (rs1, s')" and rs: "rs = r # rs1"
    by blast
  note st = va_to_pa_step [OF c1]
  note ih = Cons.IH [OF cs]
  have 1: "vpage_to_ppage_map s \<subseteq>\<^sub>m vpage_to_ppage_map s'"
    using st(2) ih by (blast intro: map_le_trans)
  have 2: "dom (vpage_to_ppage_map s') =
      dom (vpage_to_ppage_map s) \<union> set (map (vpage lps) (c # calls))"
    using st(1) ih by auto
  have 3: "minor_fault_penalty s' = minor_fault_penalty s"
    using st(3) ih by simp
  have 4: "length rs = length (c # calls)"
    using rs ih by simp
  have 56: "next_ppage s' =
      next_ppage s + length (first_seen (dom (vpage_to_ppage_map s)) (map (vpage lps) (c # calls))) \<and>
    sum_list (map snd rs) =
      length (first_seen (dom (vpage_to_ppage_map s)) (map (vpage lps) (c # calls))) * minor_fault_penalty s"
  proof (cases "vpage lps c \<in> dom (vpage_to_ppage_map s)")
    case True
    with st(6) ih rs show ?thesis by simp
  next
    case False
    with st(1,3) st(7) ih rs show ?thesis by simp
  qed
  from 1 2 3 4 56 show ?case by blast
qed

lemma va_to_pa_calls_pages:
  assumes "va_to_pa_calls lps s calls = Inr (rs, s')"
    and "k < length (first_seen (dom (vpage_to_ppage_map s)) (map (vpage lps) calls))"
  shows "vpage_to_ppage_map s' (first_seen (dom (vpage_to_ppage_map s)) (map (vpage lps) calls) ! k)
      = Some (next_ppage s + k)"
  using assms
proof (induction calls arbitrary: s rs k)
  case Nil
  then show ?case by simp
next
  case (Cons c calls)
  from va_to_pa_calls_Cons [THEN iffD1, OF Cons.prems(1)]
  obtain r s1 rs1 where c1: "va_to_pa lps s (fst c) (snd c) = Inr (r, s1)"
    and cs: "va_to_pa_calls lps s1 calls = Inr (rs1, s')" and rs: "rs = r # rs1"
    by blast
  note st = va_to_pa_step [OF c1]
  show ?case
  proof (cases "vpage lps c \<in> dom (vpage_to_ppage_map s)")
    case True
    with st(6) Cons.prems(2) Cons.IH [OF cs, of k] show ?thesis by simp
  next
    case False
    note new = st(7) [OF False]
    show ?thesis
    proof (cases k)
      case 0
      have "vpage_to_ppage_map s1 \<subseteq>\<^sub>m vpage_to_ppage_map s'"
        using va_to_pa_calls_keeps [OF cs] by simp
      with new have "vpage_to_ppage_map s' (vpage lps c) = Some (next_ppage s)"
        by (blast intro: map_le_Some)
      with False 0 show ?thesis by simp
    next
      case (Suc j)
      with False Cons.prems(2) st(1)
      have "j < length (first_seen (dom (vpage_to_ppage_map s1)) (map (vpage lps) calls))"
        by simp
      from Cons.IH [OF cs this] False Suc st(1) new show ?thesis by simp
    qed
  qed
qed

lemma va_to_pa_calls_results:
  assumes "va_to_pa_calls lps s calls = Inr (rs, s')" and "i < length calls"
  shows "rs ! i =
     (splice_page lps (the (vpage_to_ppage_map s' (vpage lps (calls ! i))))
        (page_offset lps (snd (calls ! i))),
      if vpage lps (calls ! i) \<in> dom (vpage_to_ppage_map s) \<or>
         vpage lps (calls ! i) \<in> set (take i (map (vpage lps) calls))
      then 0 else minor_fault_penalty s)"
  using assms
proof (induction calls arbitrary: s rs i)
  case Nil
  then show ?case by simp
next
  case (Cons c calls)
  from va_to_pa_calls_Cons [THEN iffD1, OF Cons.prems(1)]
  obtain r s1 rs1 where c1: "va_to_pa lps s (fst c) (snd c) = Inr (r, s1)"
    and cs: "va_to_pa_calls lps s1 calls = Inr (rs1, s')" and rs: "rs = r # rs1"
    by blast
  note st = va_to_pa_step [OF c1]
  show ?case
  proof (cases i)
    case 0
    have le: "vpage_to_ppage_map s1 \<subseteq>\<^sub>m vpage_to_ppage_map s'"
      using va_to_pa_calls_keeps [OF cs] by simp
    have "vpage lps c \<in> dom (vpage_to_ppage_map s1)" using st(1) by simp
    with le have "vpage_to_ppage_map s' (vpage lps c) = vpage_to_ppage_map s1 (vpage lps c)"
      by (auto dest: map_le_Some)
    with st(8) have f: "fst r = splice_page lps (the (vpage_to_ppage_map s' (vpage lps c)))
        (page_offset lps (snd c))" by simp
    have "snd r = (if vpage lps c \<in> dom (vpage_to_ppage_map s) then 0 else minor_fault_penalty s)"
      using st(6,7) by auto
    with f 0 rs show ?thesis by (simp add: prod_eq_iff)
  next
    case (Suc j)
    with Cons.prems(2) have j: "j < length calls" by simp
    from Cons.IH [OF cs j] Suc rs st(1,3) show ?thesis
      by (auto simp: prod_eq_iff)
  qed
qed

lemma va_to_pa_calls_test:
  "va_to_pa_calls 12 test_vmem [(0, 8197), (0, 4096), (0, 8199), (3, 4096)] =
     Inr ([(1048581, 200), (1052672, 200), (1048583, 0), (1056768, 200)],
          test_vmem\<lparr>vpage_to_ppage_map := [(0, 2) \<mapsto> 256, (0, 1) \<mapsto> 257, (3, 1) \<mapsto> 258],
                    next_ppage := 259\<rparr>)"
  by (simp add: va_to_pa_eval test_vmem_def)

lemma new_pages_test:
  "new_pages 12 test_vmem [(0, 8197), (0, 4096), (0, 8199), (3, 4096)] = [(0, 2), (0, 1), (3, 1)]"
  by (simp add: new_pages_def vpage_def page_number_def test_vmem_def)

lemma ceil_div_full:
  assumes "0 < S" "n mod S = 0"
  shows "(n + S - 1) div S = n div (S::nat)"
proof -
  define q where "q = n div S"
  have n: "n = q * S" using assms(2) div_mult_mod_eq [of n S] by (simp add: q_def)
  have "n + S - 1 = q * S + (S - 1)" using assms(1) by (simp add: n)
  then have "(n + S - 1) div S = (q * S + (S - 1)) div S" by simp
  also have "\<dots> = q + (S - 1) div S" using assms(1) by (simp only: div_mult_self3)
  also have "(S - 1) div S = 0" using assms(1) by simp
  finally show ?thesis by (simp add: q_def)
qed

lemma ceil_div_part:
  assumes "0 < S" "n mod S \<noteq> 0"
  shows "(n + S - 1) div S = n div (S::nat) + 1" and "(n - 1) div S = n div S"
proof -
  define q where "q = n div S"
  define r where "r = n mod S"
  have n: "n = q * S + r" by (simp add: q_def r_def)
  have r: "0 < r" "r < S" using assms by (simp_all add: r_def)
  have "q * S + r + S - 1 = (q + 1) * S + (r - 1)" using r by (simp add: algebra_simps)
  then have "(n + S - 1) div S = ((q + 1) * S + (r - 1)) div S" by (simp add: n)
  also have "\<dots> = (q + 1) + (r - 1) div S" using assms(1) by (simp only: div_mult_self3)
  also have "(r - 1) div S = 0" using r by simp
  finally show "(n + S - 1) div S = n div S + 1" by (simp add: q_def)
  have "q * S + r - 1 = q * S + (r - 1)" using r by simp
  then have "(n - 1) div S = (q * S + (r - 1)) div S" by (simp add: n)
  also have "\<dots> = q + (r - 1) div S" using assms(1) by (simp only: div_mult_self3)
  also have "(r - 1) div S = 0" using r by simp
  finally show "(n - 1) div S = n div S" by (simp add: q_def)
qed

lemma suc_mod: "(n mod S + 1) mod S = (n + 1) mod (S::nat)"
  by presburger

lemma get_pte_pa_fault:
  assumes "pte_key lps s cpu vaddr level \<notin> dom (page_table s)"
    and "get_pte_pa lps s cpu vaddr level = Inr (r, s')"
  shows "page_table s' = (page_table s)(pte_key lps s cpu vaddr level \<mapsto>
            slot_address lps s (active_pte_page s') (next_pte_page s))"
    and "next_pte_page s' = (next_pte_page s + 1) mod pte_slots lps s"
    and "active_pte_page s' = (if next_pte_page s = 0 then next_ppage s else active_pte_page s)"
    and "r = (splice_bits (slot_address lps s (active_pte_page s') (next_pte_page s))
               (lg2 PTE_BYTES) (lg2 (pte_page_size s)) (get_offset lps s vaddr level),
              minor_fault_penalty s)"
proof -
  from assms(2) obtain s1 where a: "activate_pte_page s = Inr s1"
    by (auto simp: get_pte_pa_def split: sum.splits)
  note k = activate_keeps [OF a] pte_key_cong [OF activate_keeps(2) [OF a]]
    get_offset_cong [OF activate_keeps(2) [OF a]]
  have act: "active_pte_page s1 = (if next_pte_page s = 0 then next_ppage s else active_pte_page s)"
    using a by (auto simp: activate_pte_page_Inr split: if_splits)
  have sl: "slot_address lps s1 = slot_address lps s" "pte_slots lps s1 = pte_slots lps s"
    using k(2) by (simp_all add: slot_address_def pte_slots_def fun_eq_iff)
  have none: "page_table s1 (pte_key lps s1 cpu vaddr level) = None"
    using assms(1) k by (simp add: domIff)
  have res: "r = (splice_bits (slot_address lps s1 (active_pte_page s1) (next_pte_page s1))
               (lg2 PTE_BYTES) (lg2 (pte_page_size s1)) (get_offset lps s1 vaddr level),
              minor_fault_penalty s1)"
    and st: "s' = s1\<lparr>page_table := (page_table s1)(pte_key lps s1 cpu vaddr level \<mapsto>
                 slot_address lps s1 (active_pte_page s1) (next_pte_page s1)),
               next_pte_page := (next_pte_page s1 + 1) mod pte_slots lps s1\<rparr>"
    using assms(2) a none by (simp_all add: get_pte_pa_def Let_def)
  show "page_table s' = (page_table s)(pte_key lps s cpu vaddr level \<mapsto>
            slot_address lps s (active_pte_page s') (next_pte_page s))"
    using st k sl by simp
  show "next_pte_page s' = (next_pte_page s + 1) mod pte_slots lps s"
    using st k sl by simp
  show "active_pte_page s' = (if next_pte_page s = 0 then next_ppage s else active_pte_page s)"
    using st act by simp
  show "r = (splice_bits (slot_address lps s (active_pte_page s') (next_pte_page s))
               (lg2 PTE_BYTES) (lg2 (pte_page_size s)) (get_offset lps s vaddr level),
              minor_fault_penalty s)"
    using res st k sl by simp
qed

lemma get_pte_pa_calls_Cons:
  "get_pte_pa_calls lps s (c # calls) = Inr (rs, s2) \<longleftrightarrow>
     (\<exists>r s1 rs1. get_pte_pa lps s (fst c) (fst (snd c)) (snd (snd c)) = Inr (r, s1) \<and>
        get_pte_pa_calls lps s1 calls = Inr (rs1, s2) \<and> rs = r # rs1)"
  by (auto split: sum.splits)

lemma get_pte_pa_calls_snoc:
  "get_pte_pa_calls lps s (calls @ [c]) = Inr (rs, s2) \<longleftrightarrow>
     (\<exists>r s1 rs1. get_pte_pa_calls lps s calls = Inr (rs1, s1) \<and>
        get_pte_pa lps s1 (fst c) (fst (snd c)) (snd (snd c)) = Inr (r, s2) \<and> rs = rs1 @ [r])"
proof (induction calls arbitrary: s rs)
  case Nil
  show ?case by (auto split: sum.splits)
next
  case (Cons a calls)
  show ?case
    unfolding append_Cons get_pte_pa_calls_Cons Cons.IH by (auto; blast)
qed

lemma pte_slots_pos: "0 < pte_slots lps s"
  by (simp add: pte_slots_def)

lemma size_cong:
  assumes "pte_page_size s1 = pte_page_size s"
  shows "slot_address lps s1 = slot_address lps s" and "pte_slots lps s1 = pte_slots lps s"
    and "call_key lps s1 = call_key lps s"
  using assms pte_key_cong [OF assms, of lps]
  by (simp_all add: slot_address_def pte_slots_def call_key_def fun_eq_iff)

lemma fill_order:
  assumes "get_pte_pa_calls lps s calls = Inr (rs, s')"
    and "next_pte_page s = 0"
    and "distinct (map (call_key lps s) calls)"
    and "set (map (call_key lps s) calls) \<inter> dom (page_table s) = {}"
  shows "pte_page_size s' = pte_page_size s \<and>
    minor_fault_penalty s' = minor_fault_penalty s \<and>
    length rs = length calls \<and>
    next_pte_page s' = length calls mod pte_slots lps s \<and>
    next_ppage s' = next_ppage s + (length calls + pte_slots lps s - 1) div pte_slots lps s \<and>
    (calls \<noteq> [] \<longrightarrow>
       active_pte_page s' = next_ppage s + (length calls - 1) div pte_slots lps s) \<and>
    dom (page_table s') = dom (page_table s) \<union> set (map (call_key lps s) calls) \<and>
    (\<forall>j. j < length calls \<longrightarrow>
       page_table s' (call_key lps s (calls ! j)) =
         Some (slot_address lps s (next_ppage s + j div pte_slots lps s) (j mod pte_slots lps s)) \<and>
       rs ! j =
         (splice_bits (slot_address lps s (next_ppage s + j div pte_slots lps s) (j mod pte_slots lps s))
            (lg2 PTE_BYTES) (lg2 (pte_page_size s))
            (get_offset lps s (fst (snd (calls ! j))) (snd (snd (calls ! j)))),
          minor_fault_penalty s))"
  using assms
proof (induction calls arbitrary: rs s' rule: rev_induct)
  case Nil
  then show ?case using pte_slots_pos [of lps s] by auto
next
  case (snoc c calls)
  let ?S = "pte_slots lps s" and ?n = "length calls"
  from get_pte_pa_calls_snoc [THEN iffD1, OF snoc.prems(1)]
  obtain r s1 rs1 where run: "get_pte_pa_calls lps s calls = Inr (rs1, s1)"
    and c: "get_pte_pa lps s1 (fst c) (fst (snd c)) (snd (snd c)) = Inr (r, s')"
    and rs: "rs = rs1 @ [r]"
    by blast
  have d: "distinct (map (call_key lps s) calls)"
    and dj: "set (map (call_key lps s) calls) \<inter> dom (page_table s) = {}"
    using snoc.prems(3,4) by auto
  note ih = snoc.IH [OF run snoc.prems(2) d dj]
  from ih have sz: "pte_page_size s1 = pte_page_size s" by simp
  note cg = size_cong [OF sz, of lps] get_offset_cong [OF sz, of lps]
  have key: "pte_key lps s1 (fst c) (fst (snd c)) (snd (snd c)) = call_key lps s c"
    using cg(3) by (simp add: call_key_def fun_eq_iff)
  have new: "call_key lps s c \<notin> dom (page_table s1)"
    using ih snoc.prems(3,4) by auto
  note f = get_pte_pa_fault [OF new [folded key] c, unfolded key cg sz]
  note p = get_pte_pa_paddr(2,3) [of lps s1 "fst c" "fst (snd c)" "snd (snd c)" "fst r" "snd r" s']
  have cnt: "next_pte_page s1 = ?n mod ?S" using ih by simp
  have S: "0 < ?S" by (rule pte_slots_pos)
  have act: "active_pte_page s' = next_ppage s + ?n div ?S"
  proof (cases "?n mod ?S = 0")
    case True
    with f(3) cnt ih ceil_div_full [OF S True] show ?thesis by simp
  next
    case False
    then have "calls \<noteq> []" by auto
    with False f(3) cnt ih ceil_div_part(2) [OF S False] show ?thesis by simp
  qed
  have ds: "(?n + ?S) div ?S = ?n div ?S + 1"
    using S div_add_self2 [of ?S ?n] by simp
  have n1: "next_ppage s1 = next_ppage s + (?n + ?S - 1) div ?S" using ih by simp
  have nxt: "next_ppage s' = next_ppage s + (?n + ?S) div ?S"
  proof (cases "?n mod ?S = 0")
    case True
    then have "next_ppage s' = next_ppage s1 + 1"
      using get_pte_pa_next_ppage(1) [OF c] cnt by simp
    with n1 ceil_div_full [OF S True] ds show ?thesis by simp
  next
    case False
    then have "next_ppage s' = next_ppage s1"
      using get_pte_pa_next_ppage(1) [OF c] cnt by simp
    with n1 ceil_div_part(1) [OF S False] ds show ?thesis by simp
  qed
  have 1: "pte_page_size s' = pte_page_size s" "minor_fault_penalty s' = minor_fault_penalty s"
    using p c ih by simp_all
  have 2: "length rs = length (calls @ [c])" using rs ih by simp
  have 3: "next_pte_page s' = length (calls @ [c]) mod ?S"
    using f(2) cnt suc_mod [of ?n ?S] by simp
  have 4: "next_ppage s' = next_ppage s + (length (calls @ [c]) + ?S - 1) div ?S"
    using nxt by simp
  have 5: "active_pte_page s' = next_ppage s + (length (calls @ [c]) - 1) div ?S"
    using act by simp
  have 6: "dom (page_table s') = dom (page_table s) \<union> set (map (call_key lps s) (calls @ [c]))"
    using f(1) ih by auto
  have 7: "page_table s' (call_key lps s ((calls @ [c]) ! j)) =
         Some (slot_address lps s (next_ppage s + j div ?S) (j mod ?S)) \<and>
       rs ! j =
         (splice_bits (slot_address lps s (next_ppage s + j div ?S) (j mod ?S))
            (lg2 PTE_BYTES) (lg2 (pte_page_size s))
            (get_offset lps s (fst (snd ((calls @ [c]) ! j))) (snd (snd ((calls @ [c]) ! j)))),
          minor_fault_penalty s)" if j: "j < length (calls @ [c])" for j
  proof (cases "j < ?n")
    case True
    then have "call_key lps s (calls ! j) \<in> set (map (call_key lps s) calls)" by simp
    with snoc.prems(3) have "call_key lps s (calls ! j) \<noteq> call_key lps s c" by auto
    with True f(1) ih rs show ?thesis by (simp add: nth_append)
  next
    case False
    with j have "j = ?n" by simp
    with f(1,4) act cnt rs ih 1 show ?thesis by (simp add: nth_append)
  qed
  from 1 2 3 4 5 6 7 show ?case by blast
qed

lemma get_pte_pa_calls_returns:
  "next_ppage s + length calls \<le> last_ppage s \<Longrightarrow>
     \<exists>rs s'. get_pte_pa_calls lps s calls = Inr (rs, s')"
proof (induction calls arbitrary: s)
  case Nil
  show ?case by simp
next
  case (Cons c calls)
  then have "next_ppage s < last_ppage s" by simp
  then obtain r s1 where c1: "get_pte_pa lps s (fst c) (fst (snd c)) (snd (snd c)) = Inr (r, s1)"
    using get_pte_pa_returns [of lps s "fst c" "fst (snd c)" "snd (snd c)"] by auto
  have "next_ppage s1 \<le> next_ppage s + 1"
    using get_pte_pa_next_ppage(1) [OF c1] by (simp split: if_splits)
  moreover have "last_ppage s1 = last_ppage s"
    using c1 get_pte_pa_paddr(4) [of lps s "fst c" "fst (snd c)" "snd (snd c)" "fst r" "snd r" s1]
    by simp
  ultimately have "next_ppage s1 + length calls \<le> last_ppage s1"
    using Cons.prems by simp
  from Cons.IH [OF this] c1 show ?case by (auto simp: get_pte_pa_calls_Cons)
qed

lemma get_pte_pa_calls_small3:
  "get_pte_pa_calls 12 (small_vmem 200) [(0, 0, 1), (0, 4096, 1), (0, 0, 1)] =
     Inr ([(1048576, 200), (1050632, 200), (1048576, 0)],
          (small_vmem 200)\<lparr>page_table := [(0, 1, 0) \<mapsto> 1048576, (0, 1, 1) \<mapsto> 1050624],
             next_pte_page := 0, active_pte_page := 257, next_ppage := 258\<rparr>)"
  by (simp add: get_pte_pa_eval small_vmem_def)

lemma get_pte_pa_calls_small_faults:
  "get_pte_pa_calls 12 (small_vmem 200) [(0, 0, 1), (0, 4096, 1), (0, 8192, 1)] =
     Inr ([(1048576, 200), (1050632, 200), (1052688, 200)],
          (small_vmem 200)\<lparr>page_table :=
               [(0, 1, 0) \<mapsto> 1048576, (0, 1, 1) \<mapsto> 1050624, (0, 1, 2) \<mapsto> 1052672],
             next_pte_page := 1, active_pte_page := 257, next_ppage := 258\<rparr>)"
  by (simp add: get_pte_pa_eval small_vmem_def)

lemma pscl_probe_fill:
  "0 < pscl_ways c \<Longrightarrow> pscl_probe (pscl_fill c tag paddr) tag = Some paddr"
  by (cases "pscl_ways c") (simp_all add: pscl_probe_def pscl_fill_def)

lemma pscl_fill_geometry:
  "pscl_sets (pscl_fill c tag paddr) = pscl_sets c" "pscl_ways (pscl_fill c tag paddr) = pscl_ways c"
  by (simp_all add: pscl_fill_def)

lemma pscl_fill_tag: "pscl_tag (pscl_fill c tag paddr) = pscl_tag c"
  by (simp add: pscl_tag_def pscl_fill_def fun_eq_iff)

lemma fetch_levels_Suc:
  "fetch_levels lps hop cpu vaddr (Suc l) w = Inr ((iss, lat), w2) \<longleftrightarrow>
     (\<exists>paddr pen vm1 iss1 lat1.
        get_pte_pa lps (ptw_vmem w) cpu vaddr (Suc l) = Inr ((paddr, pen), vm1) \<and>
        fetch_levels lps hop cpu vaddr l
          (w\<lparr>ptw_vmem := vm1,
             ptw_pscl := (if 2 \<le> Suc l
                          then (ptw_pscl w)(Suc l := pscl_fill (ptw_pscl w (Suc l))
                                 (pscl_tag (ptw_pscl w (Suc l)) vaddr) paddr)
                          else ptw_pscl w)\<rparr>) = Inr ((iss1, lat1), w2) \<and>
        iss = paddr # iss1 \<and> lat = pen + hop + lat1)"
  by (auto simp: Let_def split: sum.splits)

lemma fetch_levels_effect:
  assumes "fetch_levels lps hop cpu vaddr l w = Inr ((iss, lat), w2)"
  shows "length iss = l \<and> l * hop \<le> lat \<and>
    pte_page_size (ptw_vmem w2) = pte_page_size (ptw_vmem w) \<and>
    pt_levels (ptw_vmem w2) = pt_levels (ptw_vmem w) \<and>
    last_ppage (ptw_vmem w2) = last_ppage (ptw_vmem w) \<and>
    next_ppage (ptw_vmem w2) \<le> next_ppage (ptw_vmem w) + l \<and>
    (\<forall>k. l < k \<longrightarrow> ptw_pscl w2 k = ptw_pscl w k) \<and>
    (\<forall>k. 2 \<le> k \<and> k \<le> l \<and> 0 < pscl_ways (ptw_pscl w k) \<longrightarrow> pscl_hit w2 vaddr k)"
  using assms
proof (induction l arbitrary: w iss lat)
  case 0
  then show ?case by simp
next
  case (Suc l)
  from fetch_levels_Suc [THEN iffD1, OF Suc.prems]
  obtain paddr pen vm1 iss1 lat1 where
    c: "get_pte_pa lps (ptw_vmem w) cpu vaddr (Suc l) = Inr ((paddr, pen), vm1)"
    and f: "fetch_levels lps hop cpu vaddr l
          (w\<lparr>ptw_vmem := vm1,
             ptw_pscl := (if 2 \<le> Suc l
                          then (ptw_pscl w)(Suc l := pscl_fill (ptw_pscl w (Suc l))
                                 (pscl_tag (ptw_pscl w (Suc l)) vaddr) paddr)
                          else ptw_pscl w)\<rparr>) = Inr ((iss1, lat1), w2)"
    and r: "iss = paddr # iss1" "lat = pen + hop + lat1"
    by blast
  let ?w1 = "w\<lparr>ptw_vmem := vm1,
             ptw_pscl := (if 2 \<le> Suc l
                          then (ptw_pscl w)(Suc l := pscl_fill (ptw_pscl w (Suc l))
                                 (pscl_tag (ptw_pscl w (Suc l)) vaddr) paddr)
                          else ptw_pscl w)\<rparr>"
  note ih = Suc.IH [OF f]
  note p = get_pte_pa_paddr(2,4) [OF c] get_pte_pa_next_ppage(1) [OF c]
  have sz: "pte_page_size (ptw_vmem w2) = pte_page_size vm1" using ih by simp
  have 1: "length iss = Suc l" "Suc l * hop \<le> lat" using ih r by simp_all
  have 2: "pte_page_size (ptw_vmem w2) = pte_page_size (ptw_vmem w)"
    "last_ppage (ptw_vmem w2) = last_ppage (ptw_vmem w)"
    using ih p by simp_all
  have 3: "pt_levels (ptw_vmem w2) = pt_levels (ptw_vmem w)"
  proof -
    from c obtain s1 where a: "activate_pte_page (ptw_vmem w) = Inr s1"
      by (auto simp: get_pte_pa_def split: sum.splits)
    with c have "pt_levels vm1 = pt_levels s1"
      by (auto simp: get_pte_pa_def Let_def split: option.splits)
    with activate_keeps(7) [OF a] ih show ?thesis by simp
  qed
  have 4: "next_ppage (ptw_vmem w2) \<le> next_ppage (ptw_vmem w) + Suc l"
    using ih p(3) by (simp split: if_splits)
  have 5: "ptw_pscl w2 k = ptw_pscl w k" if "Suc l < k" for k
    using ih that by simp
  have 6: "pscl_hit w2 vaddr k" if k: "2 \<le> k \<and> k \<le> Suc l \<and> 0 < pscl_ways (ptw_pscl w k)" for k
  proof (cases "k = Suc l")
    case True
    with k ih have "ptw_pscl w2 k = pscl_fill (ptw_pscl w k) (pscl_tag (ptw_pscl w k) vaddr) paddr"
      by simp
    then show ?thesis using k by (simp add: pscl_hit_def pscl_probe_fill pscl_fill_tag)
  next
    case False
    with k have "k \<le> l" by simp
    moreover from False k have "pscl_ways (ptw_pscl ?w1 k) = pscl_ways (ptw_pscl w k)" by simp
    ultimately show ?thesis using ih k by simp
  qed
  from 1 2 3 4 5 6 show ?case by blast
qed

lemma fetch_levels_returns:
  "next_ppage (ptw_vmem w) + l \<le> last_ppage (ptw_vmem w) \<Longrightarrow>
     \<exists>iss lat w2. fetch_levels lps hop cpu vaddr l w = Inr ((iss, lat), w2)"
proof (induction l arbitrary: w)
  case 0
  show ?case by simp
next
  case (Suc l)
  then have "next_ppage (ptw_vmem w) < last_ppage (ptw_vmem w)" by simp
  then obtain paddr pen vm1 where
    c: "get_pte_pa lps (ptw_vmem w) cpu vaddr (Suc l) = Inr ((paddr, pen), vm1)"
    using get_pte_pa_returns [of lps "ptw_vmem w" cpu vaddr "Suc l"] by auto
  let ?w1 = "w\<lparr>ptw_vmem := vm1,
             ptw_pscl := (if 2 \<le> Suc l
                          then (ptw_pscl w)(Suc l := pscl_fill (ptw_pscl w (Suc l))
                                 (pscl_tag (ptw_pscl w (Suc l)) vaddr) paddr)
                          else ptw_pscl w)\<rparr>"
  have "next_ppage vm1 \<le> next_ppage (ptw_vmem w) + 1"
    using get_pte_pa_next_ppage(1) [OF c] by (simp split: if_splits)
  moreover have "last_ppage vm1 = last_ppage (ptw_vmem w)"
    by (rule get_pte_pa_paddr(4) [OF c])
  ultimately have "next_ppage (ptw_vmem ?w1) + l \<le> last_ppage (ptw_vmem ?w1)"
    using Suc.prems by simp
  from Suc.IH [OF this] obtain iss1 lat1 w2 where
    "fetch_levels lps hop cpu vaddr l ?w1 = Inr ((iss1, lat1), w2)" by blast
  with c show ?case unfolding fetch_levels_Suc by blast
qed

lemma pscl_hit_cong:
  "ptw_pscl w' k = ptw_pscl w k \<Longrightarrow> pscl_hit w' vaddr k = pscl_hit w vaddr k"
  by (simp add: pscl_hit_def)

lemma resume_level_miss:
  assumes "\<forall>k. 2 \<le> k \<and> k \<le> pt_levels (ptw_vmem w) \<longrightarrow> \<not> pscl_hit w vaddr k"
  shows "resume_level w vaddr = pt_levels (ptw_vmem w)"
proof -
  have "filter (pscl_hit w vaddr) (rev [2..<Suc (pt_levels (ptw_vmem w))]) = []"
    using assms by (auto simp: filter_empty_conv)
  then show ?thesis by (simp add: resume_level_def)
qed

lemma resume_level_hits:
  assumes "1 \<le> pt_levels (ptw_vmem w)"
    and "\<forall>k. 2 \<le> k \<and> k \<le> pt_levels (ptw_vmem w) \<longrightarrow> pscl_hit w vaddr k"
  shows "resume_level w vaddr = 1"
proof (cases "2 \<le> pt_levels (ptw_vmem w)")
  case True
  let ?xs = "rev [2..<Suc (pt_levels (ptw_vmem w))]"
  have f: "filter (pscl_hit w vaddr) ?xs = ?xs"
    using assms(2) by (auto simp: filter_id_conv)
  have ne: "[2..<Suc (pt_levels (ptw_vmem w))] \<noteq> []" using True by simp
  then have "last ?xs = hd [2..<Suc (pt_levels (ptw_vmem w))]" by (simp add: last_rev)
  also have "\<dots> = 2" using True by (simp add: upt_rec)
  finally have "last ?xs = 2" .
  with f ne show ?thesis by (simp add: resume_level_def Let_def)
next
  case False
  with assms(1) have "pt_levels (ptw_vmem w) = 1" by simp
  then show ?thesis by (simp add: resume_level_def)
qed

lemma va_to_pa_keeps:
  assumes "va_to_pa lps s cpu vaddr = Inr (r, s')"
  shows "pte_page_size s' = pte_page_size s" "pt_levels s' = pt_levels s"
    "last_ppage s' = last_ppage s" "next_ppage s' \<le> next_ppage s + 1"
    "fst r = splice_page lps (the (vpage_to_ppage_map s' (cpu, page_number lps vaddr)))
               (page_offset lps vaddr)"
    "(cpu, page_number lps vaddr) \<in> dom (vpage_to_ppage_map s')"
    "vpage_to_ppage_map s \<subseteq>\<^sub>m vpage_to_ppage_map s'"
  using assms by (auto simp: va_to_pa_Inr map_le_def split: option.splits)

lemma fetch_levels_vpage:
  assumes "fetch_levels lps hop cpu vaddr l w = Inr ((iss, lat), w2)"
  shows "vpage_to_ppage_map (ptw_vmem w2) = vpage_to_ppage_map (ptw_vmem w)"
  using assms
proof (induction l arbitrary: w iss lat)
  case 0
  then show ?case by simp
next
  case (Suc l)
  from fetch_levels_Suc [THEN iffD1, OF Suc.prems]
  obtain paddr pen vm1 iss1 lat1 where
    c: "get_pte_pa lps (ptw_vmem w) cpu vaddr (Suc l) = Inr ((paddr, pen), vm1)"
    and f: "fetch_levels lps hop cpu vaddr l
          (w\<lparr>ptw_vmem := vm1,
             ptw_pscl := (if 2 \<le> Suc l
                          then (ptw_pscl w)(Suc l := pscl_fill (ptw_pscl w (Suc l))
                                 (pscl_tag (ptw_pscl w (Suc l)) vaddr) paddr)
                          else ptw_pscl w)\<rparr>) = Inr ((iss1, lat1), w2)"
    by blast
  from Suc.IH [OF f] get_pte_pa_paddr(5) [OF c] show ?case by simp
qed

lemma walk_Inr:
  "walk lps hop w cpu vaddr = Inr ((paddr, lat, iss), w2) \<longleftrightarrow>
     (\<exists>lat1 w1 pen vm2.
        fetch_levels lps hop cpu vaddr (resume_level w vaddr) w = Inr ((iss, lat1), w1) \<and>
        va_to_pa lps (ptw_vmem w1) cpu vaddr = Inr ((paddr, pen), vm2) \<and>
        lat = lat1 + pen \<and> w2 = w1\<lparr>ptw_vmem := vm2\<rparr>)"
  by (auto simp: walk_def split: sum.splits)

lemma walk_returns:
  assumes "next_ppage (ptw_vmem w) + resume_level w vaddr < last_ppage (ptw_vmem w)"
  shows "\<exists>paddr lat iss w2. walk lps hop w cpu vaddr = Inr ((paddr, lat, iss), w2)"
proof -
  from assms have "next_ppage (ptw_vmem w) + resume_level w vaddr \<le> last_ppage (ptw_vmem w)"
    by simp
  from fetch_levels_returns [OF this] obtain iss lat1 w1 where
    f: "fetch_levels lps hop cpu vaddr (resume_level w vaddr) w = Inr ((iss, lat1), w1)"
    by blast
  from fetch_levels_effect [OF f] assms have "next_ppage (ptw_vmem w1) < last_ppage (ptw_vmem w1)"
    by simp
  then obtain r vm2 where "va_to_pa lps (ptw_vmem w1) cpu vaddr = Inr (r, vm2)"
    using va_to_pa_returns [of lps "ptw_vmem w1" cpu vaddr] by blast
  with f show ?thesis unfolding walk_Inr by (cases r) auto
qed

lemma walk_effect:
  assumes "walk lps hop w cpu vaddr = Inr ((paddr, lat, iss), w2)"
  shows "length iss = resume_level w vaddr"
    and "resume_level w vaddr * hop \<le> lat"
    and "pte_page_size (ptw_vmem w2) = pte_page_size (ptw_vmem w)"
    and "pt_levels (ptw_vmem w2) = pt_levels (ptw_vmem w)"
    and "last_ppage (ptw_vmem w2) = last_ppage (ptw_vmem w)"
    and "next_ppage (ptw_vmem w2) \<le> next_ppage (ptw_vmem w) + resume_level w vaddr + 1"
    and "\<And>k. resume_level w vaddr < k \<Longrightarrow> ptw_pscl w2 k = ptw_pscl w k"
    and "\<And>k. 2 \<le> k \<Longrightarrow> k \<le> resume_level w vaddr \<Longrightarrow> 0 < pscl_ways (ptw_pscl w k) \<Longrightarrow>
           pscl_hit w2 vaddr k"
    and "paddr = splice_page lps (the (vpage_to_ppage_map (ptw_vmem w2) (cpu, page_number lps vaddr)))
               (page_offset lps vaddr)"
    and "(cpu, page_number lps vaddr) \<in> dom (vpage_to_ppage_map (ptw_vmem w2))"
    and "vpage_to_ppage_map (ptw_vmem w) \<subseteq>\<^sub>m vpage_to_ppage_map (ptw_vmem w2)"
proof -
  from walk_Inr [THEN iffD1, OF assms] obtain lat1 w1 pen vm2 where
    f: "fetch_levels lps hop cpu vaddr (resume_level w vaddr) w = Inr ((iss, lat1), w1)"
    and v: "va_to_pa lps (ptw_vmem w1) cpu vaddr = Inr ((paddr, pen), vm2)"
    and l: "lat = lat1 + pen" and w2: "w2 = w1\<lparr>ptw_vmem := vm2\<rparr>"
    by blast
  note fe = fetch_levels_effect [OF f]
  note vk = va_to_pa_keeps [OF v]
  show "length iss = resume_level w vaddr" using fe by simp
  show "resume_level w vaddr * hop \<le> lat" using fe l by simp
  show sz: "pte_page_size (ptw_vmem w2) = pte_page_size (ptw_vmem w)" using fe vk w2 by simp
  show "pt_levels (ptw_vmem w2) = pt_levels (ptw_vmem w)" using fe vk w2 by simp
  show "last_ppage (ptw_vmem w2) = last_ppage (ptw_vmem w)" using fe vk w2 by simp
  show "next_ppage (ptw_vmem w2) \<le> next_ppage (ptw_vmem w) + resume_level w vaddr + 1"
    using fe vk(4) w2 by simp
  show "\<And>k. resume_level w vaddr < k \<Longrightarrow> ptw_pscl w2 k = ptw_pscl w k"
    using fe w2 by simp
  show "paddr = splice_page lps (the (vpage_to_ppage_map (ptw_vmem w2) (cpu, page_number lps vaddr)))
               (page_offset lps vaddr)"
    using vk(5) w2 by simp
  show "(cpu, page_number lps vaddr) \<in> dom (vpage_to_ppage_map (ptw_vmem w2))"
    using vk(6) w2 by simp
  show "vpage_to_ppage_map (ptw_vmem w) \<subseteq>\<^sub>m vpage_to_ppage_map (ptw_vmem w2)"
    using vk(7) fetch_levels_vpage [OF f] w2 by simp
  fix k
  assume "2 \<le> k" "k \<le> resume_level w vaddr" "0 < pscl_ways (ptw_pscl w k)"
  with fe have "pscl_hit w1 vaddr k" by simp
  moreover have "pscl_hit w2 vaddr k = pscl_hit w1 vaddr k"
    using w2 by (intro pscl_hit_cong) simp
  ultimately show "pscl_hit w2 vaddr k" by simp
qed

lemma test_ptw_misses: "\<not> pscl_hit test_ptw 3735928559 k"
  by (simp add: pscl_hit_def pscl_probe_def test_ptw_def)

lemma va_to_pa_below:
  assumes "va_to_pa lps s cpu vaddr = Inr (r, s1)"
    and "\<forall>key p. vpage_to_ppage_map s key = Some p \<longrightarrow> p < next_ppage s"
  shows "\<forall>key p. vpage_to_ppage_map s1 key = Some p \<longrightarrow> p < next_ppage s1"
  using assms by (auto simp: va_to_pa_Inr less_Suc_eq split: option.splits if_splits)

lemma va_to_pa_calls_below:
  assumes "va_to_pa_calls lps s calls = Inr (rs, s')"
    and "\<forall>key p. vpage_to_ppage_map s key = Some p \<longrightarrow> p < next_ppage s"
  shows "\<forall>key p. vpage_to_ppage_map s' key = Some p \<longrightarrow> p < next_ppage s'"
  using assms
proof (induction calls arbitrary: s rs)
  case Nil
  then show ?case by simp
next
  case (Cons c calls)
  from va_to_pa_calls_Cons [THEN iffD1, OF Cons.prems(1)]
  obtain r s1 rs1 where c1: "va_to_pa lps s (fst c) (snd c) = Inr (r, s1)"
    and cs: "va_to_pa_calls lps s1 calls = Inr (rs1, s')"
    by blast
  from Cons.IH [OF cs va_to_pa_below [OF c1 Cons.prems(2)]] show ?case .
qed

lemma entries_lg2:
  assumes "1024 < psz" "is_power_of_2 psz"
  shows "lg2 (psz div PTE_BYTES) + 3 = lg2 psz"
proof -
  define k where "k = lg2 psz"
  have p: "psz = 2 ^ k" using assms(2) by (simp add: is_power_of_2_def k_def)
  have "(2::nat) ^ 10 < 2 ^ k" using assms(1) p by simp
  then have k: "10 < k" by (rule power_less_imp_less_exp [rotated]) simp
  then have "(2::nat) ^ (k - 3) = 2 ^ k div 2 ^ 3" by (intro power_diff) simp_all
  then have "psz div PTE_BYTES = 2 ^ (k - 3)" by (simp add: p PTE_BYTES_def)
  then have "lg2 (psz div PTE_BYTES) = k - 3" by (simp add: lg2_pow2)
  with k show ?thesis by (simp add: k_def)
qed

lemma fetch_levels_calls:
  assumes "fetch_levels lps hop cpu vaddr l w = Inr ((iss, lat), w2)"
  shows "\<exists>rs. get_pte_pa_calls lps (ptw_vmem w) (map (\<lambda>k. (cpu, vaddr, k)) (rev [1..<Suc l]))
           = Inr (rs, ptw_vmem w2) \<and>
         iss = map fst rs \<and> lat = sum_list (map snd rs) + l * hop"
  using assms
proof (induction l arbitrary: w iss lat)
  case 0
  then show ?case by simp
next
  case (Suc l)
  from fetch_levels_Suc [THEN iffD1, OF Suc.prems]
  obtain paddr pen vm1 iss1 lat1 where
    c: "get_pte_pa lps (ptw_vmem w) cpu vaddr (Suc l) = Inr ((paddr, pen), vm1)"
    and f: "fetch_levels lps hop cpu vaddr l
          (w\<lparr>ptw_vmem := vm1,
             ptw_pscl := (if 2 \<le> Suc l
                          then (ptw_pscl w)(Suc l := pscl_fill (ptw_pscl w (Suc l))
                                 (pscl_tag (ptw_pscl w (Suc l)) vaddr) paddr)
                          else ptw_pscl w)\<rparr>) = Inr ((iss1, lat1), w2)"
    and r: "iss = paddr # iss1" "lat = pen + hop + lat1"
    by blast
  from Suc.IH [OF f] obtain rs1 where
    g: "get_pte_pa_calls lps vm1 (map (\<lambda>k. (cpu, vaddr, k)) (rev [1..<Suc l])) = Inr (rs1, ptw_vmem w2)"
    and i: "iss1 = map fst rs1" "lat1 = sum_list (map snd rs1) + l * hop"
    by auto
  have "get_pte_pa_calls lps (ptw_vmem w) (map (\<lambda>k. (cpu, vaddr, k)) (rev [1..<Suc (Suc l)]))
      = Inr ((paddr, pen) # rs1, ptw_vmem w2)"
    using c g by simp
  with r i show ?case by simp
qed

lemma test_calls:
  "get_pte_pa_calls 12 test_vmem
     [(0, 3735928559, 5), (0, 3735928559, 4), (0, 3735928559, 3), (0, 3735928559, 2),
      (0, 3735928559, 1)] =
   Inr ([(1048576, 200), (1052672, 200), (1056792, 200), (1062824, 200), (1066712, 200)],
        test_vmem\<lparr>page_table := [(0, 5, 0) \<mapsto> 1048576, (0, 4, 0) \<mapsto> 1052672,
             (0, 3, 3) \<mapsto> 1056768, (0, 2, 1781) \<mapsto> 1060864, (0, 1, 912091) \<mapsto> 1064960],
           next_pte_page := 0, active_pte_page := 260, next_ppage := 261\<rparr>)"
  by (simp add: get_pte_pa_eval test_vmem_def)

lemma rev_upt_5: "rev [1..<Suc 5] = [5, 4, 3, 2, 1]"
  by code_simp

lemma test_levels:
  "map (\<lambda>k. (0::nat, 3735928559::nat, k)) (rev [1..<Suc 5]) =
     [(0, 3735928559, 5), (0, 3735928559, 4), (0, 3735928559, 3), (0, 3735928559, 2),
      (0, 3735928559, 1)]"
  by (simp only: rev_upt_5 list.map)

lemma resume_level_test: "resume_level test_ptw 3735928559 = 5"
proof -
  have "pt_levels (ptw_vmem test_ptw) = 5" by (simp add: test_ptw_def test_vmem_def)
  with resume_level_miss [of test_ptw 3735928559] test_ptw_misses show ?thesis by simp
qed

lemma walk_test_first:
  "\<exists>w1. walk 12 1 test_ptw 0 3735928559 =
     Inr ((1072879, 1205, [1048576, 1052672, 1056792, 1062824, 1066712]), w1)"
proof -
  have "next_ppage (ptw_vmem test_ptw) + resume_level test_ptw 3735928559
      < last_ppage (ptw_vmem test_ptw)"
    unfolding resume_level_test by (simp add: test_ptw_def test_vmem_def)
  from walk_returns [OF this, of 12 1 0] obtain paddr lat iss w2 where
    w: "walk 12 1 test_ptw 0 3735928559 = Inr ((paddr, lat, iss), w2)" by blast
  from walk_Inr [THEN iffD1, OF w] obtain lat1 w1 pen vm2 where
    f: "fetch_levels 12 1 0 3735928559 5 test_ptw = Inr ((iss, lat1), w1)"
    and v: "va_to_pa 12 (ptw_vmem w1) 0 3735928559 = Inr ((paddr, pen), vm2)"
    and l: "lat = lat1 + pen"
    unfolding resume_level_test by blast
  have tv: "ptw_vmem test_ptw = test_vmem" by (simp add: test_ptw_def)
  from fetch_levels_calls [OF f] obtain rs where
    g: "get_pte_pa_calls 12 test_vmem
          (map (\<lambda>k. (0, 3735928559, k)) (rev [1..<Suc 5])) = Inr (rs, ptw_vmem w1)"
    and i: "iss = map fst rs" "lat1 = sum_list (map snd rs) + 5 * 1"
    unfolding tv by blast
  from g have rs: "rs = [(1048576, 200), (1052672, 200), (1056792, 200), (1062824, 200),
        (1066712, 200)]"
    and s1: "ptw_vmem w1 = test_vmem\<lparr>page_table := [(0, 5, 0) \<mapsto> 1048576,
             (0, 4, 0) \<mapsto> 1052672, (0, 3, 3) \<mapsto> 1056768, (0, 2, 1781) \<mapsto> 1060864,
             (0, 1, 912091) \<mapsto> 1064960],
           next_pte_page := 0, active_pte_page := 260, next_ppage := 261\<rparr>"
    unfolding test_levels test_calls by simp_all
  from v have "paddr = 1072879 \<and> pen = 200"
    unfolding s1 by (simp add: va_to_pa_eval test_vmem_def)
  with w l i rs show ?thesis by simp
qed

section \<open>Penalty of a page-table-entry lookup\<close>

text \<open>
  Claim C3, counterexample. The key of the page table holds the address bits from the
  level's shift amount upwards, the level's own index bits included. With 4 KiB PTE pages
  the addresses 0 and 4096 agree in every bit above the level-1 index bits (bits 21 and
  up), yet after a level-1 lookup of 0 the level-1 lookup of 4096 creates a second entry
  and returns the penalty 200. And with a minor-fault penalty of zero the second of two
  identical lookups finds its entry, creates nothing, and still returns a penalty equal to
  \<open>minor_fault_penalty\<close>.
\<close>

theorem get_pte_pa_penalty_counterexample:
  "VirtualMemory 12 4096 5 200 = Inr test_vmem \<and>
   get_pte_pa 12 test_vmem 0 0 1 =
     Inr ((1048576, 200),
          test_vmem\<lparr>page_table := [(0, 1, 0) \<mapsto> 1048576], next_pte_page := 0,
                    active_pte_page := 256, next_ppage := 257\<rparr>) \<and>
   shamt 12 test_vmem 1 + lg2 (pte_page_size test_vmem) = 21 \<and>
   slice_upper 21 4096 = slice_upper 21 0 \<and>
   get_pte_pa 12 (test_vmem\<lparr>page_table := [(0, 1, 0) \<mapsto> 1048576], next_pte_page := 0,
                    active_pte_page := 256, next_ppage := 257\<rparr>) 0 4096 1 =
     Inr ((1052680, 200),
          test_vmem\<lparr>page_table := [(0, 1, 0) \<mapsto> 1048576, (0, 1, 1) \<mapsto> 1052672],
                    next_pte_page := 0, active_pte_page := 257, next_ppage := 258\<rparr>) \<and>
   VirtualMemory 12 2048 2 0 = Inr (small_vmem 0) \<and>
   get_pte_pa 12 (small_vmem 0) 0 0 1 =
     Inr ((1048576, 0), (small_vmem 0)\<lparr>page_table := [(0, 1, 0) \<mapsto> 1048576],
            next_pte_page := 1, active_pte_page := 256, next_ppage := 257\<rparr>) \<and>
   get_pte_pa 12 ((small_vmem 0)\<lparr>page_table := [(0, 1, 0) \<mapsto> 1048576],
            next_pte_page := 1, active_pte_page := 256, next_ppage := 257\<rparr>) 0 0 1 =
     Inr ((1048576, minor_fault_penalty (small_vmem 0)),
          (small_vmem 0)\<lparr>page_table := [(0, 1, 0) \<mapsto> 1048576],
            next_pte_page := 1, active_pte_page := 256, next_ppage := 257\<rparr>)"
proof (intro conjI)
  show "VirtualMemory 12 4096 5 200 = Inr test_vmem"
    by (rule VirtualMemory_test)
  show "VirtualMemory 12 2048 2 0 = Inr (small_vmem 0)"
    by (rule VirtualMemory_small)
qed (simp_all add: get_pte_pa_eval small_vmem_def test_vmem_def)

text \<open>
  Claim C3, amended. \<open>get_pte_pa\<close> returns unless the counter is zero and the pool is
  empty. When it returns, the penalty is \<open>minor_fault_penalty\<close> if no entry existed for the
  key (requester, level, address bits from the level's shift amount upwards, the index
  bits of the level included) and zero otherwise,
  and the key is then in the page table; so for a nonzero \<open>minor_fault_penalty\<close> the penalty
  equals it if and only if the call created the entry.
\<close>

theorem get_pte_pa_fault_penalty:
  "((\<exists>r s'. get_pte_pa lps s cpu vaddr level = Inr (r, s')) \<longleftrightarrow>
      (next_pte_page s \<noteq> 0 \<or> next_ppage s < last_ppage s)) \<and>
   (\<forall>paddr pen s'. get_pte_pa lps s cpu vaddr level = Inr ((paddr, pen), s') \<longrightarrow>
      pen = (if pte_key lps s cpu vaddr level \<in> dom (page_table s) then 0
             else minor_fault_penalty s) \<and>
      dom (page_table s') = insert (pte_key lps s cpu vaddr level) (dom (page_table s)) \<and>
      (minor_fault_penalty s \<noteq> 0 \<longrightarrow>
         (pen = minor_fault_penalty s \<longleftrightarrow> pte_key lps s cpu vaddr level \<notin> dom (page_table s))))"
proof (intro conjI allI impI)
  show "(\<exists>r s'. get_pte_pa lps s cpu vaddr level = Inr (r, s')) \<longleftrightarrow>
      (next_pte_page s \<noteq> 0 \<or> next_ppage s < last_ppage s)"
    by (rule get_pte_pa_returns)
next
  fix paddr pen s'
  assume r: "get_pte_pa lps s cpu vaddr level = Inr ((paddr, pen), s')"
  show p: "pen = (if pte_key lps s cpu vaddr level \<in> dom (page_table s) then 0
             else minor_fault_penalty s)"
    by (rule get_pte_pa_penalty(1) [OF r])
  show "dom (page_table s') = insert (pte_key lps s cpu vaddr level) (dom (page_table s))"
    by (rule get_pte_pa_penalty(2) [OF r])
  assume "minor_fault_penalty s \<noteq> 0"
  with p show "pen = minor_fault_penalty s \<longleftrightarrow> pte_key lps s cpu vaddr level \<notin> dom (page_table s)"
    by auto
qed

theorem get_pte_pa_fault_penalty_witness:
  "get_pte_pa 12 test_vmem 0 3735928559 1 =
     Inr ((1050328, 200),
          test_vmem\<lparr>page_table := [(0, 1, 912091) \<mapsto> 1048576], next_pte_page := 0,
                    active_pte_page := 256, next_ppage := 257\<rparr>) \<and>
   minor_fault_penalty test_vmem \<noteq> 0 \<and>
   (200 = minor_fault_penalty test_vmem) = (pte_key 12 test_vmem 0 3735928559 1 \<notin> dom (page_table test_vmem)) \<and>
   pte_key 12 test_vmem 0 3735928559 1 \<notin> dom (page_table test_vmem)"
proof -
  have m: "minor_fault_penalty test_vmem \<noteq> 0" by (simp add: test_vmem_def)
  from get_pte_pa_fault_penalty [of 12 test_vmem 0 3735928559 1] get_pte_pa_test_level1 m
  have "(200 = minor_fault_penalty test_vmem) =
      (pte_key 12 test_vmem 0 3735928559 1 \<notin> dom (page_table test_vmem))"
    by blast
  with m get_pte_pa_test_level1 show ?thesis by (simp add: test_vmem_def)
qed

section \<open>Repeating a page-table-entry lookup\<close>

text \<open>
  Claim C10. With two pages left in the pool, two consecutive calls of \<open>get_pte_pa\<close> with
  the same arguments both return; whenever both return, the second gives the same physical
  address as the first and a penalty of zero and leaves the page table as it is; and no
  call changes an entry the page table already holds.
\<close>

theorem get_pte_pa_repeat:
  "(next_ppage s + 1 < last_ppage s \<longrightarrow>
      (\<exists>r1 s1 r2 s2. get_pte_pa lps s cpu vaddr level = Inr (r1, s1) \<and>
                     get_pte_pa lps s1 cpu vaddr level = Inr (r2, s2))) \<and>
   (\<forall>pa1 pen1 s1 pa2 pen2 s2.
      get_pte_pa lps s cpu vaddr level = Inr ((pa1, pen1), s1) \<and>
      get_pte_pa lps s1 cpu vaddr level = Inr ((pa2, pen2), s2) \<longrightarrow>
        pa2 = pa1 \<and> pen2 = 0 \<and> page_table s2 = page_table s1) \<and>
   (\<forall>r s' k e. get_pte_pa lps s cpu vaddr level = Inr (r, s') \<and> page_table s k = Some e \<longrightarrow>
        page_table s' k = Some e)"
proof (intro conjI allI impI)
  assume pool: "next_ppage s + 1 < last_ppage s"
  then obtain r1 s1 where c1: "get_pte_pa lps s cpu vaddr level = Inr (r1, s1)"
    using get_pte_pa_returns [of lps s cpu vaddr level] by auto
  have "next_ppage s1 \<le> next_ppage s + 1"
    using get_pte_pa_next_ppage(1) [OF c1] by (simp split: if_splits)
  moreover have "last_ppage s1 = last_ppage s"
    using c1 get_pte_pa_paddr(4) [of lps s cpu vaddr level "fst r1" "snd r1" s1] by simp
  ultimately have "next_ppage s1 < last_ppage s1" using pool by simp
  then obtain r2 s2 where "get_pte_pa lps s1 cpu vaddr level = Inr (r2, s2)"
    using get_pte_pa_returns [of lps s1 cpu vaddr level] by auto
  with c1 show "\<exists>r1 s1 r2 s2. get_pte_pa lps s cpu vaddr level = Inr (r1, s1) \<and>
                     get_pte_pa lps s1 cpu vaddr level = Inr (r2, s2)"
    by blast
next
  fix pa1 pen1 s1 pa2 pen2 s2
  assume calls: "get_pte_pa lps s cpu vaddr level = Inr ((pa1, pen1), s1) \<and>
      get_pte_pa lps s1 cpu vaddr level = Inr ((pa2, pen2), s2)"
  then have c1: "get_pte_pa lps s cpu vaddr level = Inr ((pa1, pen1), s1)"
    and c2: "get_pte_pa lps s1 cpu vaddr level = Inr ((pa2, pen2), s2)"
    by simp_all
  have sz: "pte_page_size s1 = pte_page_size s"
    by (rule get_pte_pa_paddr(2) [OF c1])
  obtain entry where e: "page_table s1 (pte_key lps s cpu vaddr level) = Some entry"
    and p1: "pa1 = splice_bits entry (lg2 PTE_BYTES) (lg2 (pte_page_size s))
                     (get_offset lps s vaddr level)"
    using get_pte_pa_paddr(1) [OF c1] by blast
  have e1: "page_table s1 (pte_key lps s1 cpu vaddr level) = Some entry"
    using e pte_key_cong [OF sz] by simp
  have "pa2 = splice_bits entry (lg2 PTE_BYTES) (lg2 (pte_page_size s1))
                     (get_offset lps s1 vaddr level)"
    by (rule get_pte_pa_hit(1) [OF e1 c2])
  with p1 sz get_offset_cong [OF sz] show "pa2 = pa1" by simp
  show "pen2 = 0" by (rule get_pte_pa_hit(2) [OF e1 c2])
  show "page_table s2 = page_table s1" by (rule get_pte_pa_hit(3) [OF e1 c2])
next
  fix r s' k e
  assume "get_pte_pa lps s cpu vaddr level = Inr (r, s') \<and> page_table s k = Some e"
  then show "page_table s' k = Some e"
    using get_pte_pa_penalty(3) [of lps s cpu vaddr level "fst r" "snd r" s' k e] by simp
qed

theorem get_pte_pa_repeat_witness:
  "next_ppage test_vmem + 1 < last_ppage test_vmem \<and>
   get_pte_pa 12 test_vmem 0 3735928559 1 =
     Inr ((1050328, 200),
          test_vmem\<lparr>page_table := [(0, 1, 912091) \<mapsto> 1048576], next_pte_page := 0,
                    active_pte_page := 256, next_ppage := 257\<rparr>) \<and>
   get_pte_pa 12 (test_vmem\<lparr>page_table := [(0, 1, 912091) \<mapsto> 1048576], next_pte_page := 0,
                    active_pte_page := 256, next_ppage := 257\<rparr>) 0 3735928559 1 =
     Inr ((1050328, 0),
          test_vmem\<lparr>page_table := [(0, 1, 912091) \<mapsto> 1048576], next_pte_page := 0,
                    active_pte_page := 257, next_ppage := 258\<rparr>)"
proof -
  let ?s1 = "test_vmem\<lparr>page_table := [(0, 1, 912091) \<mapsto> 1048576], next_pte_page := 0,
                    active_pte_page := 256, next_ppage := 257\<rparr>"
  have pool: "next_ppage test_vmem + 1 < last_ppage test_vmem"
    by (simp add: test_vmem_def)
  have "next_ppage ?s1 < last_ppage ?s1" by (simp add: test_vmem_def)
  then obtain pa2 pen2 s2 where c2: "get_pte_pa 12 ?s1 0 3735928559 1 = Inr ((pa2, pen2), s2)"
    using get_pte_pa_returns [of 12 ?s1 0 3735928559 1] by auto
  with get_pte_pa_repeat [of test_vmem 12 0 3735928559 1] get_pte_pa_test_level1
  have "pa2 = 1050328 \<and> pen2 = 0 \<and> page_table s2 = page_table ?s1" by blast
  moreover have "get_pte_pa 12 ?s1 0 3735928559 1 = Inr ((1050328, 0),
          test_vmem\<lparr>page_table := [(0, 1, 912091) \<mapsto> 1048576], next_pte_page := 0,
                    active_pte_page := 257, next_ppage := 258\<rparr>)"
    by (simp add: get_pte_pa_eval test_vmem_def)
  ultimately show ?thesis using pool get_pte_pa_test_level1 by simp
qed

section \<open>Construction\<close>

text \<open>
  Claim C7. The constructor fails with an assertion exactly when the PTE-page size is at
  most 1 KiB, or is not a power of two, or the computed pool is empty or inverted
  (\<open>last_ppage \<le> next_ppage\<close>); for every other configuration it returns a state. With a
  page offset of fewer than 64 bits the computed bounds are these: \<open>next_ppage\<close> is the
  larger of one page and one mebibyte, in pages, and \<open>last_ppage\<close> is the number of entries
  of a PTE page raised to the number of levels, as far as that many pages fit a 64-bit
  address.
\<close>

theorem VirtualMemory_aborts:
  "(VirtualMemory lps psz levels pen = Inl AssertionFailure \<longleftrightarrow>
      (psz \<le> 1024 \<or> last_ppage_init lps psz levels \<le> next_ppage_init lps \<or> \<not> is_power_of_2 psz)) \<and>
   ((\<exists>s. VirtualMemory lps psz levels pen = Inr s) \<longleftrightarrow>
      (1024 < psz \<and> is_power_of_2 psz \<and> next_ppage_init lps < last_ppage_init lps psz levels)) \<and>
   (lps < 64 \<longrightarrow>
      next_ppage_init lps = max (2 ^ lps) 1048576 div 2 ^ lps \<and>
      last_ppage_init lps psz levels =
        (psz div PTE_BYTES) ^ (levels mod 2 ^ 32) mod 2 ^ (64 - lps))"
proof (intro conjI impI)
  show "VirtualMemory lps psz levels pen = Inl AssertionFailure \<longleftrightarrow>
      (psz \<le> 1024 \<or> last_ppage_init lps psz levels \<le> next_ppage_init lps \<or> \<not> is_power_of_2 psz)"
    by (auto simp: VirtualMemory_def Let_def)
  show "(\<exists>s. VirtualMemory lps psz levels pen = Inr s) \<longleftrightarrow>
      (1024 < psz \<and> is_power_of_2 psz \<and> next_ppage_init lps < last_ppage_init lps psz levels)"
    by (auto simp: VirtualMemory_def Let_def)
next
  assume l: "lps < 64"
  then show "next_ppage_init lps = max (2 ^ lps) 1048576 div 2 ^ lps"
    by (rule next_ppage_init_eq)
  from l have "lps \<le> 64" by simp
  then show "last_ppage_init lps psz levels =
        (psz div PTE_BYTES) ^ (levels mod 2 ^ 32) mod 2 ^ (64 - lps)"
    by (rule last_ppage_init_eq)
qed

theorem VirtualMemory_aborts_witness:
  "VirtualMemory 12 1024 5 200 = Inl AssertionFailure \<and>
   VirtualMemory 12 3000 5 200 = Inl AssertionFailure \<and>
   VirtualMemory 12 4096 0 200 = Inl AssertionFailure \<and>
   VirtualMemory 12 4096 6 200 = Inl AssertionFailure \<and>
   VirtualMemory 12 2048 1 200 = Inl AssertionFailure \<and>
   VirtualMemory 12 4096 5 200 = Inr test_vmem \<and>
   (12::nat) < 64 \<and> next_ppage_init 12 = 256 \<and>
   last_ppage_init 12 4096 5 = 35184372088832 \<and> last_ppage_init 12 4096 6 = 0 \<and>
   last_ppage_init 12 2048 1 = 256"
proof -
  have n: "next_ppage_init 12 = 256"
    using VirtualMemory_aborts [of 12 4096 5 200] by simp
  have l5: "last_ppage_init 12 4096 5 = 35184372088832"
    using VirtualMemory_aborts [of 12 4096 5 200] by (simp add: PTE_BYTES_def)
  have l6: "last_ppage_init 12 4096 6 = 0"
    using VirtualMemory_aborts [of 12 4096 6 200] by (simp add: PTE_BYTES_def)
  have l1: "last_ppage_init 12 2048 1 = 256"
    using VirtualMemory_aborts [of 12 2048 1 200] by (simp add: PTE_BYTES_def)
  have l0: "last_ppage_init 12 4096 0 = 1"
    using VirtualMemory_aborts [of 12 4096 0 200] by (simp add: PTE_BYTES_def)
  have p: "\<not> is_power_of_2 3000"
    by (simp add: is_power_of_2_def lg2.simps)
  have "VirtualMemory 12 1024 5 200 = Inl AssertionFailure"
    using VirtualMemory_aborts [of 12 1024 5 200] by simp
  moreover have "VirtualMemory 12 3000 5 200 = Inl AssertionFailure"
    using VirtualMemory_aborts [of 12 3000 5 200] p by simp
  moreover have "VirtualMemory 12 4096 0 200 = Inl AssertionFailure"
    using VirtualMemory_aborts [of 12 4096 0 200] n l0 by simp
  moreover have "VirtualMemory 12 4096 6 200 = Inl AssertionFailure"
    using VirtualMemory_aborts [of 12 4096 6 200] n l6 by simp
  moreover have "VirtualMemory 12 2048 1 200 = Inl AssertionFailure"
    using VirtualMemory_aborts [of 12 2048 1 200] n l1 by simp
  ultimately show ?thesis using n l5 l6 l1 VirtualMemory_test by simp
qed


text \<open>
  Claim C8, counterexample. With pages and PTE pages of 4 KiB and five levels the
  constructor sets \<open>last_ppage\<close> to 512 to the fifth power, the number of 8-byte entries of
  a PTE page raised to the number of levels, and not to the page size raised to it.
\<close>

theorem VirtualMemory_last_ppage_counterexample:
  "VirtualMemory 12 4096 5 200 = Inr test_vmem \<and>
   last_ppage test_vmem = 35184372088832 \<and>
   (512::nat) ^ 5 = 35184372088832 \<and>
   (4096::nat) ^ 5 = 1152921504606846976"
proof (intro conjI)
  show "VirtualMemory 12 4096 5 200 = Inr test_vmem"
    by (rule VirtualMemory_test)
qed (simp_all add: test_vmem_def)

text \<open>
  Claim C8, amended. A successful construction with a page offset of fewer than 64 bits
  sets \<open>last_ppage\<close> to the number of 8-byte entries of a PTE page (the PTE-page size in bytes
  divided by 8) raised to the number of levels, reduced modulo the number of pages of the
  64-bit address space, so to that power itself whenever it is a page number; and it sets
  \<open>next_ppage\<close> to the first page above the reserved low region, whose size in bytes is the
  larger of one page and one mebibyte.
\<close>

theorem VirtualMemory_pool_bounds:
  "VirtualMemory lps psz levels pen = Inr s \<and> levels < 2 ^ 32 \<and> lps < 64 \<longrightarrow>
     last_ppage s = (psz div PTE_BYTES) ^ levels mod 2 ^ (64 - lps) \<and>
     ((psz div PTE_BYTES) ^ levels < 2 ^ (64 - lps) \<longrightarrow>
        last_ppage s = (psz div PTE_BYTES) ^ levels) \<and>
     pte_page_size s = psz div PTE_BYTES \<and> pt_levels s = levels \<and>
     next_ppage s * 2 ^ lps = max (2 ^ lps) 1048576 \<and>
     next_ppage s = next_ppage_init lps"
  by (auto simp: VirtualMemory_Inr last_ppage_init_eq next_ppage_init_bytes)

theorem VirtualMemory_pool_bounds_witness:
  "VirtualMemory 12 4096 5 200 = Inr test_vmem \<and> (5::nat) < 2 ^ 32 \<and> (12::nat) < 64 \<and>
   ((4096::nat) div PTE_BYTES) ^ 5 < 2 ^ (64 - 12) \<and>
   last_ppage test_vmem = (4096 div PTE_BYTES) ^ 5 \<and>
   last_ppage test_vmem = 512 ^ 5 \<and>
   next_ppage test_vmem * 2 ^ 12 = max (2 ^ 12) 1048576 \<and>
   next_ppage test_vmem = 256"
proof -
  have h: "((4096::nat) div PTE_BYTES) ^ 5 < 2 ^ (64 - 12)"
    by (simp add: PTE_BYTES_def)
  have "last_ppage test_vmem = (4096 div PTE_BYTES) ^ 5 \<and>
      next_ppage test_vmem * 2 ^ 12 = max (2 ^ 12) 1048576"
    using VirtualMemory_pool_bounds [of 12 4096 5 200 test_vmem] VirtualMemory_test h
    by simp
  then show ?thesis using VirtualMemory_test h by (simp add: test_vmem_def PTE_BYTES_def)
qed

section \<open>The physical-page pool\<close>

text \<open>
  Claim C5. \<open>next_ppage \<le> last_ppage\<close> holds in the state the constructor returns; every
  returning call of \<open>va_to_pa\<close> and \<open>get_pte_pa\<close> keeps it, leaves \<open>last_ppage\<close> alone and
  never lowers \<open>next_ppage\<close>; under it \<open>available_ppages\<close> returns the exact difference, which
  is therefore not negative; and when \<open>available_ppages\<close> is positive the assertion of
  \<open>ppage_front\<close> does not fire.
\<close>

theorem pool_invariant:
  "(VirtualMemory lps psz levels pen = Inr s0 \<longrightarrow> next_ppage s0 \<le> last_ppage s0) \<and>
   (next_ppage s \<le> last_ppage s \<longrightarrow>
      (\<forall>cpu vaddr r s'. va_to_pa lps s cpu vaddr = Inr (r, s') \<longrightarrow>
         next_ppage s' \<le> last_ppage s' \<and> last_ppage s' = last_ppage s \<and> next_ppage s \<le> next_ppage s') \<and>
      (\<forall>cpu vaddr level r s'. get_pte_pa lps s cpu vaddr level = Inr (r, s') \<longrightarrow>
         next_ppage s' \<le> last_ppage s' \<and> last_ppage s' = last_ppage s \<and> next_ppage s \<le> next_ppage s') \<and>
      (\<exists>n. available_ppages s = Inr n \<and> next_ppage s + n = last_ppage s)) \<and>
   (\<forall>n. available_ppages s = Inr n \<and> 0 < n \<longrightarrow> ppage_front s = Inr (next_ppage s))"
proof (intro conjI allI impI)
  assume "VirtualMemory lps psz levels pen = Inr s0"
  then show "next_ppage s0 \<le> last_ppage s0"
    by (auto simp: VirtualMemory_Inr)
next
  fix cpu vaddr r s'
  assume "next_ppage s \<le> last_ppage s" and c: "va_to_pa lps s cpu vaddr = Inr (r, s')"
  from c have "next_ppage s < last_ppage s" by (simp add: va_to_pa_Inr)
  with c show "next_ppage s' \<le> last_ppage s'" "last_ppage s' = last_ppage s"
    "next_ppage s \<le> next_ppage s'"
    by (auto simp: va_to_pa_Inr split: option.splits)
next
  fix cpu vaddr level r s'
  assume i: "next_ppage s \<le> last_ppage s"
    and c: "get_pte_pa lps s cpu vaddr level = Inr (r, s')"
  show l: "last_ppage s' = last_ppage s"
    using c get_pte_pa_paddr(4) [of lps s cpu vaddr level "fst r" "snd r" s'] by simp
  show "next_ppage s' \<le> last_ppage s'"
    using i l get_pte_pa_next_ppage [OF c] by (auto split: if_splits)
  show "next_ppage s \<le> next_ppage s'"
    using get_pte_pa_next_ppage(1) [OF c] by (simp split: if_splits)
next
  assume "next_ppage s \<le> last_ppage s"
  then show "\<exists>n. available_ppages s = Inr n \<and> next_ppage s + n = last_ppage s"
    by (simp add: available_ppages_def)
next
  fix n
  assume "available_ppages s = Inr n \<and> 0 < n"
  then show "ppage_front s = Inr (next_ppage s)"
    by (simp add: ppage_front_def)
qed

theorem pool_invariant_witness:
  "VirtualMemory 12 4096 5 200 = Inr test_vmem \<and>
   next_ppage test_vmem \<le> last_ppage test_vmem \<and>
   va_to_pa 12 test_vmem 0 3735928559 =
     Inr ((1052399, 200),
          test_vmem\<lparr>vpage_to_ppage_map := [(0, 912091) \<mapsto> 256], next_ppage := 257\<rparr>) \<and>
   next_ppage (test_vmem\<lparr>vpage_to_ppage_map := [(0, 912091) \<mapsto> 256], next_ppage := 257\<rparr>)
     \<le> last_ppage (test_vmem\<lparr>vpage_to_ppage_map := [(0, 912091) \<mapsto> 256], next_ppage := 257\<rparr>) \<and>
   get_pte_pa 12 test_vmem 0 3735928559 1 =
     Inr ((1050328, 200),
          test_vmem\<lparr>page_table := [(0, 1, 912091) \<mapsto> 1048576], next_pte_page := 0,
                    active_pte_page := 256, next_ppage := 257\<rparr>) \<and>
   available_ppages test_vmem = Inr 35184372088576 \<and>
   ppage_front test_vmem = Inr (next_ppage test_vmem)"
proof -
  have a: "available_ppages test_vmem = Inr 35184372088576"
    by (simp add: available_ppages_def test_vmem_def)
  have i: "next_ppage test_vmem \<le> last_ppage test_vmem"
    using pool_invariant [of 12 4096 5 200 test_vmem test_vmem] VirtualMemory_test by blast
  have "ppage_front test_vmem = Inr (next_ppage test_vmem)"
    using pool_invariant [of 12 4096 5 200 test_vmem test_vmem] a by simp
  moreover have "next_ppage (test_vmem\<lparr>vpage_to_ppage_map := [(0, 912091) \<mapsto> 256], next_ppage := 257\<rparr>)
     \<le> last_ppage (test_vmem\<lparr>vpage_to_ppage_map := [(0, 912091) \<mapsto> 256], next_ppage := 257\<rparr>)"
    using pool_invariant [of 12 4096 5 200 test_vmem test_vmem] i va_to_pa_test by blast
  ultimately show ?thesis
    using VirtualMemory_test i va_to_pa_test get_pte_pa_test_level1 a by simp
qed

section \<open>Page-offset bits\<close>




section \<open>Index fields\<close>

text \<open>
  Claim C6, counterexample. With PTE pages of 4 KiB the claim's formula, taken with the
  PTE-page size in bytes, puts level 2 at bit 24 and makes a field 12 bits wide. \<open>shamt\<close>
  puts level 2 at bit 21, and \<open>get_offset\<close> yields the 9-bit field 219 of \<open>0xdeadbeef\<close> at
  level 1, where 12 bits would give 2779.
\<close>

theorem shamt_bytes_counterexample:
  "VirtualMemory 12 4096 5 200 = Inr test_vmem \<and>
   shamt 12 test_vmem 2 = 21 \<and> 12 + lg2 4096 * (2 - 1) = (24::nat) \<and>
   get_offset 12 test_vmem 3735928559 1 = 219 \<and> slice 12 (lg2 4096) 3735928559 = 2779"
proof (intro conjI)
  show "VirtualMemory 12 4096 5 200 = Inr test_vmem"
    by (rule VirtualMemory_test)
qed (simp_all add: shamt_def get_offset_def slice_def Let_def test_vmem_def lg2_512 lg2_4096)

text \<open>
  Claim C6, amended. The width of an index field is the logarithm of the number of 8-byte
  entries of a PTE page, three less than the logarithm of the PTE-page size in bytes. For
  a level count \<open>n\<close> whose shift amounts stay within 64 bits: every level from 1 to \<open>n\<close> has
  shift amount \<open>lps\<close> plus the width times \<open>level - 1\<close> and a field of that width, each field
  starts where the previous one ends (level 1 starts at the end of the page offset), and
  the page offset plus the fields put back at their shift amounts is the address below bit
  \<open>lps\<close> plus \<open>n\<close> times the width: the address itself when it has no higher bit, and two
  addresses reassemble alike exactly when they agree below that bit.
\<close>

theorem index_fields_tile:
  "(VirtualMemory lps psz levels pen = Inr s \<longrightarrow>
      pte_page_size s = psz div PTE_BYTES \<and> lg2 (pte_page_size s) + 3 = lg2 psz) \<and>
   (n < 2 ^ 64 \<and> lps + lg2 (pte_page_size s) * n < 2 ^ 64 \<longrightarrow>
     (\<forall>level. 1 \<le> level \<and> level \<le> n \<longrightarrow>
        shamt lps s level = lps + lg2 (pte_page_size s) * (level - 1) \<and>
        get_offset lps s vaddr level < 2 ^ lg2 (pte_page_size s) \<and>
        (level < n \<longrightarrow> shamt lps s (level + 1) = shamt lps s level + lg2 (pte_page_size s))) \<and>
     reassemble lps s vaddr n = vaddr mod 2 ^ (lps + lg2 (pte_page_size s) * n) \<and>
     (vaddr < 2 ^ (lps + lg2 (pte_page_size s) * n) \<longrightarrow> reassemble lps s vaddr n = vaddr) \<and>
     (\<forall>vaddr'. reassemble lps s vaddr' n = reassemble lps s vaddr n \<longleftrightarrow>
        vaddr' mod 2 ^ (lps + lg2 (pte_page_size s) * n) = vaddr mod 2 ^ (lps + lg2 (pte_page_size s) * n)))"
proof (intro impI conjI allI)
  assume "VirtualMemory lps psz levels pen = Inr s"
  then have v: "1024 < psz" "is_power_of_2 psz" "pte_page_size s = psz div PTE_BYTES"
    by (auto simp: VirtualMemory_Inr)
  show "pte_page_size s = psz div PTE_BYTES" by (rule v(3))
  show "lg2 (pte_page_size s) + 3 = lg2 psz"
    unfolding v(3) by (rule entries_lg2 [OF v(1,2)])
next
  fix level
  assume c: "n < 2 ^ 64 \<and> lps + lg2 (pte_page_size s) * n < 2 ^ 64"
    and l: "1 \<le> level \<and> level \<le> n"
  let ?w = "lg2 (pte_page_size s)"
  have "?w * (level - 1) \<le> ?w * n" using l by (intro mult_le_mono2) auto
  with c have b1: "lps + ?w * (level - 1) < 2 ^ 64" by linarith
  from c l have b0: "level < 2 ^ 64" by linarith
  from l b0 b1 show s1: "shamt lps s level = lps + ?w * (level - 1)"
    by (intro shamt_plain) simp_all
  show "get_offset lps s vaddr level < 2 ^ ?w" by (rule get_offset_less)
  assume ln: "level < n"
  then have "?w * (level + 1 - 1) \<le> ?w * n" by (intro mult_le_mono2) auto
  with c have b2: "lps + ?w * (level + 1 - 1) < 2 ^ 64" by linarith
  from c ln have b3: "level + 1 < 2 ^ 64" by linarith
  have "shamt lps s (level + 1) = lps + ?w * (level + 1 - 1)"
    using b2 b3 by (intro shamt_plain) simp_all
  moreover have "?w * (level + 1 - 1) = ?w * (level - 1) + ?w"
    using l by (cases level) simp_all
  ultimately show "shamt lps s (level + 1) = shamt lps s level + ?w"
    using s1 by simp
next
  assume c: "n < 2 ^ 64 \<and> lps + lg2 (pte_page_size s) * n < 2 ^ 64"
  then show r: "reassemble lps s vaddr n = vaddr mod 2 ^ (lps + lg2 (pte_page_size s) * n)"
    by (simp add: reassemble_mod)
  {
    assume "vaddr < 2 ^ (lps + lg2 (pte_page_size s) * n)"
    with r show "reassemble lps s vaddr n = vaddr" by simp
  }
  fix vaddr'
  from c show "reassemble lps s vaddr' n = reassemble lps s vaddr n \<longleftrightarrow>
        vaddr' mod 2 ^ (lps + lg2 (pte_page_size s) * n) = vaddr mod 2 ^ (lps + lg2 (pte_page_size s) * n)"
    by (simp add: reassemble_mod)
qed

theorem index_fields_tile_witness:
  "VirtualMemory 12 4096 5 200 = Inr test_vmem \<and>
   lg2 (pte_page_size test_vmem) + 3 = lg2 4096 \<and>
   (5::nat) < 2 ^ 64 \<and> 12 + lg2 (pte_page_size test_vmem) * 5 < (2::nat) ^ 64 \<and>
   shamt 12 test_vmem 1 = 12 \<and> shamt 12 test_vmem 5 = 48 \<and>
   shamt 12 test_vmem 3 = shamt 12 test_vmem 2 + lg2 (pte_page_size test_vmem) \<and>
   (3735928559::nat) < 2 ^ (12 + lg2 (pte_page_size test_vmem) * 5) \<and>
   reassemble 12 test_vmem 3735928559 5 = 3735928559"
proof -
  note t = index_fields_tile [where n = 5 and lps = 12 and s = test_vmem
      and vaddr = 3735928559 and psz = 4096 and levels = 5 and pen = 200]
  have c: "(5::nat) < 2 ^ 64 \<and> 12 + lg2 (pte_page_size test_vmem) * 5 < (2::nat) ^ 64"
    by (simp add: test_vmem_def lg2_512)
  have v: "(3735928559::nat) < 2 ^ (12 + lg2 (pte_page_size test_vmem) * 5)"
    by (simp add: test_vmem_def lg2_512)
  have "reassemble 12 test_vmem 3735928559 5 = 3735928559"
    using t c v by blast
  moreover have "shamt 12 test_vmem 3 = shamt 12 test_vmem 2 + lg2 (pte_page_size test_vmem)"
    using t c by (simp add: test_vmem_def)
  moreover have "lg2 (pte_page_size test_vmem) + 3 = lg2 4096"
    using t VirtualMemory_test by blast
  ultimately show ?thesis
    using c v VirtualMemory_test by (simp add: shamt_def test_vmem_def lg2_512)
qed

section \<open>First-touch allocation of data pages\<close>

text \<open>
  Claim C1. Take any state and any list of \<open>va_to_pa\<close> calls. If the pool holds more pages
  than the run touches new virtual pages, the run returns. Whenever it returns: the new
  (requester, virtual page) pairs are distinct, the k-th of them (counting from zero, in
  the order of first access) is mapped to pool page \<open>next_ppage + k\<close>, \<open>next_ppage\<close> has
  advanced by their number, no earlier mapping has changed, all mapped pages stay below
  \<open>next_ppage\<close> if they were so before (so no page is handed out twice), every call
  returns the mapped page spliced with its own page offset, the penalty of a call is \<open>minor_fault_penalty\<close> at
  the first access of a new pair and zero at every other call, so the penalties add up to
  one \<open>minor_fault_penalty\<close> per new pair. A call repeated in a state whose pool is not
  empty returns the same physical address with penalty zero and changes nothing.
\<close>

theorem va_to_pa_calls_first_touch:
  "(next_ppage s + length (new_pages lps s calls) < last_ppage s \<longrightarrow>
      (\<exists>rs s'. va_to_pa_calls lps s calls = Inr (rs, s'))) \<and>
   (\<forall>rs s'. va_to_pa_calls lps s calls = Inr (rs, s') \<longrightarrow>
      length rs = length calls \<and>
      distinct (new_pages lps s calls) \<and>
      set (new_pages lps s calls) = set (map (vpage lps) calls) - dom (vpage_to_ppage_map s) \<and>
      next_ppage s' = next_ppage s + length (new_pages lps s calls) \<and>
      (\<forall>k. k < length (new_pages lps s calls) \<longrightarrow>
         vpage_to_ppage_map s' (new_pages lps s calls ! k) = Some (next_ppage s + k)) \<and>
      vpage_to_ppage_map s \<subseteq>\<^sub>m vpage_to_ppage_map s' \<and>
      ((\<forall>key p. vpage_to_ppage_map s key = Some p \<longrightarrow> p < next_ppage s) \<longrightarrow>
       (\<forall>key p. vpage_to_ppage_map s' key = Some p \<longrightarrow> p < next_ppage s')) \<and>
      (\<forall>i. i < length calls \<longrightarrow>
         rs ! i =
           (splice_page lps (the (vpage_to_ppage_map s' (vpage lps (calls ! i))))
              (page_offset lps (snd (calls ! i))),
            if vpage lps (calls ! i) \<in> dom (vpage_to_ppage_map s) \<or>
               vpage lps (calls ! i) \<in> set (take i (map (vpage lps) calls))
            then 0 else minor_fault_penalty s)) \<and>
      sum_list (map snd rs) = length (new_pages lps s calls) * minor_fault_penalty s) \<and>
   (\<forall>cpu vaddr paddr pen s1.
      va_to_pa lps s cpu vaddr = Inr ((paddr, pen), s1) \<and> next_ppage s1 < last_ppage s1 \<longrightarrow>
        va_to_pa lps s1 cpu vaddr = Inr ((paddr, 0), s1))"
proof (intro conjI allI impI)
  assume "next_ppage s + length (new_pages lps s calls) < last_ppage s"
  then show "\<exists>rs s'. va_to_pa_calls lps s calls = Inr (rs, s')"
    unfolding new_pages_def by (rule va_to_pa_calls_returns)
next
  fix rs s'
  assume run: "va_to_pa_calls lps s calls = Inr (rs, s')"
  note k = va_to_pa_calls_keeps [OF run, folded new_pages_def]
  show "length rs = length calls" using k by simp
  show "distinct (new_pages lps s calls)"
    by (simp add: new_pages_def first_seen_distinct)
  show "set (new_pages lps s calls) = set (map (vpage lps) calls) - dom (vpage_to_ppage_map s)"
    by (simp add: new_pages_def first_seen_set)
  show "next_ppage s' = next_ppage s + length (new_pages lps s calls)" using k by simp
  show "vpage_to_ppage_map s \<subseteq>\<^sub>m vpage_to_ppage_map s'" using k by simp
  {
    fix key p
    assume "\<forall>key p. vpage_to_ppage_map s key = Some p \<longrightarrow> p < next_ppage s"
      and "vpage_to_ppage_map s' key = Some p"
    then show "p < next_ppage s'"
      using va_to_pa_calls_below [OF run] by blast
  }
  show "sum_list (map snd rs) = length (new_pages lps s calls) * minor_fault_penalty s"
    using k by simp
  {
    fix k
    assume "k < length (new_pages lps s calls)"
    then show "vpage_to_ppage_map s' (new_pages lps s calls ! k) = Some (next_ppage s + k)"
      unfolding new_pages_def by (rule va_to_pa_calls_pages [OF run])
  }
  fix i
  assume "i < length calls"
  then show "rs ! i =
           (splice_page lps (the (vpage_to_ppage_map s' (vpage lps (calls ! i))))
              (page_offset lps (snd (calls ! i))),
            if vpage lps (calls ! i) \<in> dom (vpage_to_ppage_map s) \<or>
               vpage lps (calls ! i) \<in> set (take i (map (vpage lps) calls))
            then 0 else minor_fault_penalty s)"
    by (rule va_to_pa_calls_results [OF run])
next
  fix cpu vaddr paddr pen s1
  assume "va_to_pa lps s cpu vaddr = Inr ((paddr, pen), s1) \<and> next_ppage s1 < last_ppage s1"
  then show "va_to_pa lps s1 cpu vaddr = Inr ((paddr, 0), s1)"
    by (auto simp: va_to_pa_Inr split: option.splits)
qed

theorem va_to_pa_calls_first_touch_witness:
  "next_ppage test_vmem + length (new_pages 12 test_vmem [(0, 8197), (0, 4096), (0, 8199), (3, 4096)])
     < last_ppage test_vmem \<and>
   va_to_pa_calls 12 test_vmem [(0, 8197), (0, 4096), (0, 8199), (3, 4096)] =
     Inr ([(1048581, 200), (1052672, 200), (1048583, 0), (1056768, 200)],
          test_vmem\<lparr>vpage_to_ppage_map := [(0, 2) \<mapsto> 256, (0, 1) \<mapsto> 257, (3, 1) \<mapsto> 258],
                    next_ppage := 259\<rparr>) \<and>
   new_pages 12 test_vmem [(0, 8197), (0, 4096), (0, 8199), (3, 4096)] = [(0, 2), (0, 1), (3, 1)] \<and>
   sum_list (map snd [(1048581, 200), (1052672, 200), (1048583, 0), (1056768::nat, 200::nat)]) =
     length (new_pages 12 test_vmem [(0, 8197), (0, 4096), (0, 8199), (3, 4096)])
       * minor_fault_penalty test_vmem \<and>
   va_to_pa 12 test_vmem 0 3735928559 =
     Inr ((1052399, 200),
          test_vmem\<lparr>vpage_to_ppage_map := [(0, 912091) \<mapsto> 256], next_ppage := 257\<rparr>) \<and>
   va_to_pa 12 (test_vmem\<lparr>vpage_to_ppage_map := [(0, 912091) \<mapsto> 256], next_ppage := 257\<rparr>)
       0 3735928559 =
     Inr ((1052399, 0),
          test_vmem\<lparr>vpage_to_ppage_map := [(0, 912091) \<mapsto> 256], next_ppage := 257\<rparr>)"
proof -
  let ?calls = "[(0, 8197), (0, 4096), (0, 8199), (3, 4096)] :: (nat \<times> nat) list"
  let ?s1 = "test_vmem\<lparr>vpage_to_ppage_map := [(0, 912091) \<mapsto> 256], next_ppage := 257\<rparr>"
  note t = va_to_pa_calls_first_touch [of test_vmem 12 ?calls]
  have pool: "next_ppage test_vmem + length (new_pages 12 test_vmem ?calls) < last_ppage test_vmem"
    unfolding new_pages_test by (simp add: test_vmem_def)
  have "sum_list (map snd [(1048581, 200), (1052672, 200), (1048583, 0), (1056768::nat, 200::nat)]) =
     length (new_pages 12 test_vmem ?calls) * minor_fault_penalty test_vmem"
    using t va_to_pa_calls_test by blast
  moreover have "next_ppage ?s1 < last_ppage ?s1" by (simp add: test_vmem_def)
  with t va_to_pa_test have "va_to_pa 12 ?s1 0 3735928559 = Inr ((1052399, 0), ?s1)"
    by blast
  ultimately show ?thesis
    using pool va_to_pa_calls_test new_pages_test va_to_pa_test by simp
qed

section \<open>Filling PTE pages\<close>

text \<open>
  Claim C4, the code at the failing input. With 4 KiB pages and 2 KiB PTE pages a physical
  page holds two slots. Two lookups with new keys fill page 256 and wrap the counter. A
  third lookup repeats the first key: it finds the counter at zero and pops page 257,
  creating nothing. A fourth lookup, again of the first key, pops page 258, although the
  counter has not moved since page 257 was popped and page 257 holds no slot.
\<close>

theorem get_pte_pa_hit_allocates:
  "VirtualMemory 12 2048 2 200 = Inr (small_vmem 200) \<and>
   pte_slots 12 (small_vmem 200) = 2 \<and>
   get_pte_pa_calls 12 (small_vmem 200) [(0, 0, 1), (0, 4096, 1), (0, 0, 1)] =
     Inr ([(1048576, 200), (1050632, 200), (1048576, 0)],
          (small_vmem 200)\<lparr>page_table := [(0, 1, 0) \<mapsto> 1048576, (0, 1, 1) \<mapsto> 1050624],
             next_pte_page := 0, active_pte_page := 257, next_ppage := 258\<rparr>) \<and>
   get_pte_pa 12
       ((small_vmem 200)\<lparr>page_table := [(0, 1, 0) \<mapsto> 1048576, (0, 1, 1) \<mapsto> 1050624],
             next_pte_page := 0, active_pte_page := 257, next_ppage := 258\<rparr>) 0 0 1 =
     Inr ((1048576, 0),
          (small_vmem 200)\<lparr>page_table := [(0, 1, 0) \<mapsto> 1048576, (0, 1, 1) \<mapsto> 1050624],
             next_pte_page := 0, active_pte_page := 258, next_ppage := 259\<rparr>)"
proof (intro conjI)
  show "VirtualMemory 12 2048 2 200 = Inr (small_vmem 200)"
    by (rule VirtualMemory_small)
qed (simp_all add: get_pte_pa_eval small_vmem_def)


text \<open>
  The order in which lookups that create entries fill the PTE pages. A lookup entered with
  a nonzero counter returns and pops no page. A lookup that creates an entry gives it the
  slot numbered by the counter in the active page, pops a fresh page as the active one
  exactly when it was entered with the counter at zero, and advances the counter modulo
  the number of slots of a page. A lookup that finds its entry leaves the counter and the
  page table alone. Hence a run of lookups of distinct new keys, started with the counter
  at zero, puts its j-th entry (from zero) into slot \<open>j mod slots\<close> of page
  \<open>next_ppage + j div slots\<close> and pops one page per \<open>slots\<close> entries, the last one possibly
  not full; it returns when the pool holds a page per lookup.
\<close>

theorem get_pte_pa_fill_order:
  "(\<forall>cpu vaddr level. next_pte_page s \<noteq> 0 \<longrightarrow>
      (\<exists>r s'. get_pte_pa lps s cpu vaddr level = Inr (r, s') \<and>
         next_ppage s' = next_ppage s \<and> active_pte_page s' = active_pte_page s)) \<and>
   (\<forall>cpu vaddr level r s'.
      pte_key lps s cpu vaddr level \<notin> dom (page_table s) \<and>
      get_pte_pa lps s cpu vaddr level = Inr (r, s') \<longrightarrow>
        page_table s' (pte_key lps s cpu vaddr level) =
          Some (slot_address lps s (active_pte_page s') (next_pte_page s)) \<and>
        next_pte_page s' = (next_pte_page s + 1) mod pte_slots lps s \<and>
        active_pte_page s' = (if next_pte_page s = 0 then next_ppage s else active_pte_page s) \<and>
        next_ppage s' = (if next_pte_page s = 0 then next_ppage s + 1 else next_ppage s)) \<and>
   (\<forall>cpu vaddr level r s'.
      pte_key lps s cpu vaddr level \<in> dom (page_table s) \<and>
      get_pte_pa lps s cpu vaddr level = Inr (r, s') \<longrightarrow>
        page_table s' = page_table s \<and> next_pte_page s' = next_pte_page s) \<and>
   (next_pte_page s = 0 \<and> distinct (map (call_key lps s) calls) \<and>
    set (map (call_key lps s) calls) \<inter> dom (page_table s) = {} \<longrightarrow>
      (next_ppage s + length calls \<le> last_ppage s \<longrightarrow>
         (\<exists>rs s'. get_pte_pa_calls lps s calls = Inr (rs, s'))) \<and>
      (\<forall>rs s'. get_pte_pa_calls lps s calls = Inr (rs, s') \<longrightarrow>
         (\<forall>j. j < length calls \<longrightarrow>
            page_table s' (call_key lps s (calls ! j)) =
              Some (slot_address lps s (next_ppage s + j div pte_slots lps s)
                      (j mod pte_slots lps s))) \<and>
         next_pte_page s' = length calls mod pte_slots lps s \<and>
         next_ppage s' =
           next_ppage s + (length calls + pte_slots lps s - 1) div pte_slots lps s))"
proof (intro conjI allI impI)
  fix cpu vaddr level
  assume nz: "next_pte_page s \<noteq> 0"
  then obtain r s' where c: "get_pte_pa lps s cpu vaddr level = Inr (r, s')"
    using get_pte_pa_returns [of lps s cpu vaddr level] by auto
  from c obtain s1 where a: "activate_pte_page s = Inr s1"
    by (auto simp: get_pte_pa_def split: sum.splits)
  with nz have "s1 = s" by (simp add: activate_pte_page_Inr)
  with c a have "active_pte_page s' = active_pte_page s"
    by (auto simp: get_pte_pa_def Let_def split: option.splits)
  with c nz get_pte_pa_next_ppage(1) [OF c]
  show "\<exists>r s'. get_pte_pa lps s cpu vaddr level = Inr (r, s') \<and>
         next_ppage s' = next_ppage s \<and> active_pte_page s' = active_pte_page s"
    by auto
next
  fix cpu vaddr level r s'
  assume h: "pte_key lps s cpu vaddr level \<notin> dom (page_table s) \<and>
      get_pte_pa lps s cpu vaddr level = Inr (r, s')"
  then have n: "pte_key lps s cpu vaddr level \<notin> dom (page_table s)"
    and c: "get_pte_pa lps s cpu vaddr level = Inr (r, s')" by simp_all
  note f = get_pte_pa_fault [OF n c]
  show "page_table s' (pte_key lps s cpu vaddr level) =
          Some (slot_address lps s (active_pte_page s') (next_pte_page s))"
    using f(1) by simp
  show "next_pte_page s' = (next_pte_page s + 1) mod pte_slots lps s" by (rule f(2))
  show "active_pte_page s' = (if next_pte_page s = 0 then next_ppage s else active_pte_page s)"
    by (rule f(3))
  show "next_ppage s' = (if next_pte_page s = 0 then next_ppage s + 1 else next_ppage s)"
    by (rule get_pte_pa_next_ppage(1) [OF c])
next
  fix cpu vaddr level r s'
  assume h: "pte_key lps s cpu vaddr level \<in> dom (page_table s) \<and>
      get_pte_pa lps s cpu vaddr level = Inr (r, s')"
  then obtain entry where e: "page_table s (pte_key lps s cpu vaddr level) = Some entry"
    and c: "get_pte_pa lps s cpu vaddr level = Inr ((fst r, snd r), s')" by auto
  show "page_table s' = page_table s" by (rule get_pte_pa_hit(3) [OF e c])
  show "next_pte_page s' = next_pte_page s" by (rule get_pte_pa_hit(4) [OF e c])
next
  assume "next_ppage s + length calls \<le> last_ppage s"
  then show "\<exists>rs s'. get_pte_pa_calls lps s calls = Inr (rs, s')"
    by (rule get_pte_pa_calls_returns)
next
  fix rs s'
  assume h: "next_pte_page s = 0 \<and> distinct (map (call_key lps s) calls) \<and>
    set (map (call_key lps s) calls) \<inter> dom (page_table s) = {}"
    and run: "get_pte_pa_calls lps s calls = Inr (rs, s')"
  from h have h1: "next_pte_page s = 0" and h2: "distinct (map (call_key lps s) calls)"
    and h3: "set (map (call_key lps s) calls) \<inter> dom (page_table s) = {}" by simp_all
  note fo = fill_order [OF run h1 h2 h3]
  show "next_pte_page s' = length calls mod pte_slots lps s" using fo by simp
  show "next_ppage s' =
           next_ppage s + (length calls + pte_slots lps s - 1) div pte_slots lps s"
    using fo by simp
  fix j
  assume "j < length calls"
  with fo show "page_table s' (call_key lps s (calls ! j)) =
              Some (slot_address lps s (next_ppage s + j div pte_slots lps s)
                      (j mod pte_slots lps s))"
    by simp
qed

theorem get_pte_pa_fill_order_witness:
  "next_pte_page (small_vmem 200) = 0 \<and>
   map (call_key 12 (small_vmem 200)) [(0, 0, 1), (0, 4096, 1), (0, 8192, 1)] =
     [(0, 1, 0), (0, 1, 1), (0, 1, 2)] \<and>
   dom (page_table (small_vmem 200)) = {} \<and>
   next_ppage (small_vmem 200) + length [(0, 0, 1), (0, 4096, 1), (0::nat, 8192::nat, 1::nat)]
     \<le> last_ppage (small_vmem 200) \<and>
   pte_slots 12 (small_vmem 200) = 2 \<and>
   get_pte_pa_calls 12 (small_vmem 200) [(0, 0, 1), (0, 4096, 1), (0, 8192, 1)] =
     Inr ([(1048576, 200), (1050632, 200), (1052688, 200)],
          (small_vmem 200)\<lparr>page_table :=
               [(0, 1, 0) \<mapsto> 1048576, (0, 1, 1) \<mapsto> 1050624, (0, 1, 2) \<mapsto> 1052672],
             next_pte_page := 1, active_pte_page := 257, next_ppage := 258\<rparr>) \<and>
   next_ppage ((small_vmem 200)\<lparr>page_table :=
               [(0, 1, 0) \<mapsto> 1048576, (0, 1, 1) \<mapsto> 1050624, (0, 1, 2) \<mapsto> 1052672],
             next_pte_page := 1, active_pte_page := 257, next_ppage := 258\<rparr>) =
     next_ppage (small_vmem 200) +
       (length [(0, 0, 1), (0, 4096, 1), (0::nat, 8192::nat, 1::nat)]
          + pte_slots 12 (small_vmem 200) - 1) div pte_slots 12 (small_vmem 200) \<and>
   slot_address 12 (small_vmem 200) (next_ppage (small_vmem 200) + 2 div 2) (2 mod 2) = 1052672"
proof -
  let ?s = "small_vmem 200"
  let ?calls = "[(0, 0, 1), (0, 4096, 1), (0, 8192, 1)] :: (nat \<times> nat \<times> nat) list"
  have k: "map (call_key 12 ?s) ?calls = [(0, 1, 0), (0, 1, 1), (0, 1, 2)]"
    by (simp add: call_key_def pte_key_def shamt_def slice_upper_def small_vmem_def lg2_2048 lg2_256 PTE_BYTES_def)
  have h: "next_pte_page ?s = 0 \<and> distinct (map (call_key 12 ?s) ?calls) \<and>
      set (map (call_key 12 ?s) ?calls) \<inter> dom (page_table ?s) = {}"
    unfolding k by (simp add: small_vmem_def)
  have "next_ppage ((small_vmem 200)\<lparr>page_table :=
               [(0, 1, 0) \<mapsto> 1048576, (0, 1, 1) \<mapsto> 1050624, (0, 1, 2) \<mapsto> 1052672],
             next_pte_page := 1, active_pte_page := 257, next_ppage := 258\<rparr>) =
     next_ppage ?s + (length ?calls + pte_slots 12 ?s - 1) div pte_slots 12 ?s"
    using get_pte_pa_fill_order [of ?s 12 ?calls] h get_pte_pa_calls_small_faults by blast
  moreover have "pte_slots 12 ?s = 2" "dom (page_table ?s) = {}" "next_pte_page ?s = 0"
    "slot_address 12 ?s (next_ppage ?s + 2 div 2) (2 mod 2) = 1052672"
    "next_ppage ?s + length ?calls \<le> last_ppage ?s"
    by (simp_all add: pte_slots_def slot_address_def small_vmem_def lg2_2048 lg2_256 PTE_BYTES_def)
  ultimately show ?thesis using k get_pte_pa_calls_small_faults by simp
qed

section \<open>Walks and downstream reads\<close>

text \<open>
  Claim C9. Take a walker over a five-level virtual memory whose caches have at least one
  set and one way, an address that none of the caches of levels 2 to 5 holds, a downstream
  port that takes at least one cycle, and a pool with eight pages left. The walk returns,
  issues exactly five downstream reads, has a nonzero latency and leaves the address in
  every cache of levels 2 to 5. A second walk of the same address then returns the same
  physical address and issues exactly one downstream read.
\<close>

theorem walk_five_levels:
  "pt_levels (ptw_vmem w) = 5 \<and> 0 < hop \<and>
   (\<forall>k. 2 \<le> k \<and> k \<le> 5 \<longrightarrow>
      0 < pscl_sets (ptw_pscl w k) \<and> 0 < pscl_ways (ptw_pscl w k) \<and> \<not> pscl_hit w vaddr k) \<and>
   next_ppage (ptw_vmem w) + 8 \<le> last_ppage (ptw_vmem w) \<longrightarrow>
   (\<exists>paddr lat iss w1.
      walk lps hop w cpu vaddr = Inr ((paddr, lat, iss), w1) \<and>
      length iss = 5 \<and> 0 < lat \<and>
      (\<forall>k. 2 \<le> k \<and> k \<le> 5 \<longrightarrow> pscl_hit w1 vaddr k) \<and>
      (\<exists>lat2 iss2 w2.
         walk lps hop w1 cpu vaddr = Inr ((paddr, lat2, iss2), w2) \<and> length iss2 = 1))"
proof (intro impI)
  assume h: "pt_levels (ptw_vmem w) = 5 \<and> 0 < hop \<and>
   (\<forall>k. 2 \<le> k \<and> k \<le> 5 \<longrightarrow>
      0 < pscl_sets (ptw_pscl w k) \<and> 0 < pscl_ways (ptw_pscl w k) \<and> \<not> pscl_hit w vaddr k) \<and>
   next_ppage (ptw_vmem w) + 8 \<le> last_ppage (ptw_vmem w)"
  then have lv: "pt_levels (ptw_vmem w) = 5" and hop: "0 < hop"
    and pool: "next_ppage (ptw_vmem w) + 8 \<le> last_ppage (ptw_vmem w)"
    and ways: "\<And>k. 2 \<le> k \<Longrightarrow> k \<le> 5 \<Longrightarrow> 0 < pscl_ways (ptw_pscl w k)"
    and miss: "\<forall>k. 2 \<le> k \<and> k \<le> pt_levels (ptw_vmem w) \<longrightarrow> \<not> pscl_hit w vaddr k"
    by simp_all
  have r1: "resume_level w vaddr = 5"
    using resume_level_miss [OF miss] lv by simp
  from pool r1 have "next_ppage (ptw_vmem w) + resume_level w vaddr < last_ppage (ptw_vmem w)"
    by simp
  from walk_returns [OF this] obtain paddr lat iss w1 where
    w1: "walk lps hop w cpu vaddr = Inr ((paddr, lat, iss), w1)" by blast
  note e1 = walk_effect [OF w1, unfolded r1]
  have len: "length iss = 5" by (rule e1(1))
  have "5 * hop \<le> lat" by (rule e1(2))
  with hop have lat: "0 < lat" by simp
  have hits: "pscl_hit w1 vaddr k" if "2 \<le> k \<and> k \<le> 5" for k
    using that e1(8) [of k] ways [of k] by simp
  have lv1: "pt_levels (ptw_vmem w1) = 5" using e1(4) lv by simp
  have r2: "resume_level w1 vaddr = 1"
    using hits lv1 by (intro resume_level_hits) simp_all
  have "next_ppage (ptw_vmem w1) + resume_level w1 vaddr < last_ppage (ptw_vmem w1)"
    using e1(5,6) pool r2 by simp
  from walk_returns [OF this] obtain paddr2 lat2 iss2 w2 where
    w2: "walk lps hop w1 cpu vaddr = Inr ((paddr2, lat2, iss2), w2)" by blast
  note e2 = walk_effect [OF w2, unfolded r2]
  have "vpage_to_ppage_map (ptw_vmem w2) (cpu, page_number lps vaddr) =
      vpage_to_ppage_map (ptw_vmem w1) (cpu, page_number lps vaddr)"
    using e1(10) e2(11) by (auto dest: map_le_Some)
  with e1(9) e2(9) have "paddr2 = paddr" by simp
  with w2 e2(1) have "\<exists>lat2 iss2 w2.
         walk lps hop w1 cpu vaddr = Inr ((paddr, lat2, iss2), w2) \<and> length iss2 = 1"
    by auto
  with w1 len lat hits show "\<exists>paddr lat iss w1.
      walk lps hop w cpu vaddr = Inr ((paddr, lat, iss), w1) \<and>
      length iss = 5 \<and> 0 < lat \<and>
      (\<forall>k. 2 \<le> k \<and> k \<le> 5 \<longrightarrow> pscl_hit w1 vaddr k) \<and>
      (\<exists>lat2 iss2 w2.
         walk lps hop w1 cpu vaddr = Inr ((paddr, lat2, iss2), w2) \<and> length iss2 = 1)"
    by blast
qed

theorem walk_five_levels_witness:
  "pt_levels (ptw_vmem test_ptw) = 5 \<and> (0::nat) < 1 \<and>
   next_ppage (ptw_vmem test_ptw) + 8 \<le> last_ppage (ptw_vmem test_ptw) \<and>
   pscl_sets (ptw_pscl test_ptw 2) = 1 \<and> pscl_ways (ptw_pscl test_ptw 2) = 1 \<and>
   \<not> pscl_hit test_ptw 3735928559 2 \<and> \<not> pscl_hit test_ptw 3735928559 5 \<and>
   (\<exists>w1.
      walk 12 1 test_ptw 0 3735928559 =
        Inr ((1072879, 1205, [1048576, 1052672, 1056792, 1062824, 1066712]), w1) \<and>
      (\<exists>lat2 iss2 w2.
         walk 12 1 w1 0 3735928559 = Inr ((1072879, lat2, iss2), w2) \<and> length iss2 = 1))"
proof -
  have h: "pt_levels (ptw_vmem test_ptw) = 5 \<and> (0::nat) < 1 \<and>
   (\<forall>k. 2 \<le> k \<and> k \<le> 5 \<longrightarrow>
      0 < pscl_sets (ptw_pscl test_ptw k) \<and> 0 < pscl_ways (ptw_pscl test_ptw k) \<and>
      \<not> pscl_hit test_ptw 3735928559 k) \<and>
   next_ppage (ptw_vmem test_ptw) + 8 \<le> last_ppage (ptw_vmem test_ptw)"
    by (simp add: test_ptw_misses) (simp add: test_ptw_def test_vmem_def)
  from walk_five_levels [of test_ptw 1 3735928559 12 0] h
  obtain paddr lat iss w1 where
    w: "walk 12 1 test_ptw 0 3735928559 = Inr ((paddr, lat, iss), w1)"
    and s: "\<exists>lat2 iss2 w2.
         walk 12 1 w1 0 3735928559 = Inr ((paddr, lat2, iss2), w2) \<and> length iss2 = 1"
    by blast
  from walk_test_first w have "paddr = 1072879 \<and> lat = 1205 \<and>
      iss = [1048576, 1052672, 1056792, 1062824, 1066712]"
    by auto
  with w s have "\<exists>w1.
      walk 12 1 test_ptw 0 3735928559 =
        Inr ((1072879, 1205, [1048576, 1052672, 1056792, 1062824, 1066712]), w1) \<and>
      (\<exists>lat2 iss2 w2.
         walk 12 1 w1 0 3735928559 = Inr ((1072879, lat2, iss2), w2) \<and> length iss2 = 1)"
    by blast
  moreover have "pscl_sets (ptw_pscl test_ptw 2) = 1 \<and> pscl_ways (ptw_pscl test_ptw 2) = 1"
    by (simp add: test_ptw_def)
  ultimately show ?thesis using h test_ptw_misses by simp
qed

end
